theory Spec2Isabelle
  imports Complex_Main "HOL-Library.Word" "HOL-Library.Monad_Syntax"
begin

section \<open>IEEE 754 binary floating point, as NumPy and Python compute with it\<close>

text \<open>
  \<^verbatim>\<open>Backend/main.py\<close> computes on \<^verbatim>\<open>float32\<close> arrays (\<^verbatim>\<open>read_band\<close> ends with
  \<^verbatim>\<open>astype(np.float32)\<close>, \<^verbatim>\<open>compute_ndvi\<close> allocates its result with
  \<^verbatim>\<open>dtype=np.float32\<close>) and reports percentages and rounded values as \<^verbatim>\<open>float64\<close>.
  A float is its three bit fields: the sign, the biased exponent and the fraction. Every
  combination of the fields is a float, so no operation below needs a side condition on
  its arguments. The type parameters are the widths of the exponent and the fraction.
\<close>

type_synonym ('e, 'f) float = "bool \<times> 'e word \<times> 'f word"
type_synonym float32 = "(8, 23) float"
type_synonym float64 = "(11, 52) float"

definition sign :: "('e::len, 'f::len) float \<Rightarrow> bool" where
  "sign x = fst x"

definition expo :: "('e::len, 'f::len) float \<Rightarrow> nat" where
  "expo x = unat (fst (snd x))"

definition frac :: "('e::len, 'f::len) float \<Rightarrow> nat" where
  "frac x = unat (snd (snd x))"

definition fbits :: "('e::len, 'f::len) float \<Rightarrow> nat" where
  "fbits x = LENGTH('f)"

text \<open>The exponent field of all ones marks the infinities and the NaNs.\<close>

definition emax :: "('e::len, 'f::len) float \<Rightarrow> nat" where
  "emax x = 2 ^ LENGTH('e) - 1"

definition bias :: "('e::len, 'f::len) float \<Rightarrow> nat" where
  "bias x = 2 ^ (LENGTH('e) - 1) - 1"

definition is_nan :: "('e::len, 'f::len) float \<Rightarrow> bool" where
  "is_nan x = (expo x = emax x \<and> frac x \<noteq> 0)"

definition is_inf :: "('e::len, 'f::len) float \<Rightarrow> bool" where
  "is_inf x = (expo x = emax x \<and> frac x = 0)"

definition is_finite :: "('e::len, 'f::len) float \<Rightarrow> bool" where
  "is_finite x = (expo x \<noteq> emax x)"

definition is_zero :: "('e::len, 'f::len) float \<Rightarrow> bool" where
  "is_zero x = (expo x = 0 \<and> frac x = 0)"

definition pow2 :: "int \<Rightarrow> real" where
  "pow2 k = (if 0 \<le> k then 2 ^ nat k else 1 / 2 ^ nat (- k))"

definition mant :: "('e::len, 'f::len) float \<Rightarrow> nat" where
  "mant x = (if expo x = 0 then frac x else 2 ^ fbits x + frac x)"

text \<open>
  The value of a float. A subnormal (exponent field 0) has no hidden bit and the scale of
  exponent field 1. On an infinity the formula gives \<open>\<plusminus> 2 ^ (bias + 1)\<close>, a
  magnitude above every finite float of the format, so that one comparison of values
  orders the finite floats and the infinities as IEEE 754 does. The value of a NaN is never
  used.
\<close>

definition valof :: "('e::len, 'f::len) float \<Rightarrow> real" where
  "valof x = (if sign x then - 1 else 1) * of_nat (mant x) *
     pow2 (int (max 1 (expo x)) - int (bias x) - int (fbits x))"

definition plus_zero :: "('e::len, 'f::len) float" where
  "plus_zero = (False, 0, 0)"

definition zero_of :: "bool \<Rightarrow> ('e::len, 'f::len) float" where
  "zero_of s = (s, 0, 0)"

definition inf_of :: "bool \<Rightarrow> ('e::len, 'f::len) float" where
  "inf_of s = (s, - 1, 0)"

text \<open>
  Every invalid operation returns this one NaN: the program tests NaNs with
  \<^verbatim>\<open>np.isfinite\<close> and by comparisons and never reads a payload.
\<close>

definition the_nan :: "('e::len, 'f::len) float" where
  "the_nan = (False, - 1, 1)"

subsection \<open>Rounding to nearest, ties to even\<close>

text \<open>Rounding a real to an integer, a tie to the even neighbour.\<close>

definition rhe :: "real \<Rightarrow> int" where
  "rhe x = (let f = \<lfloor>x\<rfloor>; d = x - of_int f in
     if d < 1 / 2 then f else if 1 / 2 < d then f + 1 else if even f then f else f + 1)"

text \<open>
  \<open>lb_up k a\<close> is the number of halvings that bring \<open>a\<close> below 2, and
  \<open>lb_down k a\<close> the number of doublings that bring \<open>a\<close> to 1 or above, each at
  most \<open>k\<close>: the binary exponent of \<open>a\<close>, cut off at the largest and the smallest
  exponent of the format.
\<close>

function lb_up :: "nat \<Rightarrow> real \<Rightarrow> nat" where
  "lb_up k a = (if k = 0 \<or> a < 2 then 0 else 1 + lb_up (k - 1) (a / 2))"
  by pat_completeness auto
termination
  by (relation "measure fst") auto

function lb_down :: "nat \<Rightarrow> real \<Rightarrow> nat" where
  "lb_down k a = (if k = 0 \<or> 1 \<le> a then 0 else 1 + lb_down (k - 1) (a * 2))"
  by pat_completeness auto
termination
  by (relation "measure fst") auto

declare lb_up.simps [simp del] lb_down.simps [simp del]

text \<open>
  \<open>fround q\<close> is the float nearest to the real \<open>q\<close>, a tie going to the even
  fraction. With \<open>e\<close> the exponent of \<open>\<bar>q\<bar>\<close> (at least that of the subnormals) and
  \<open>m\<close> the magnitude rounded to an integer multiple of \<open>2 ^ (e - LENGTH('f))\<close>, the
  number \<open>n\<close> is the exponent and fraction fields read as one integer: a fraction that
  rounds up to the next power of two carries into the exponent field, and a magnitude
  that reaches the exponent field of all ones overflows to an infinity.
\<close>

definition fround :: "real \<Rightarrow> ('e::len, 'f::len) float" where
  "fround q =
    (let a = \<bar>q\<bar>;
         b = 2 ^ (LENGTH('e) - 1) - 1;
         e = (if a = 0 then 1 - int b
              else if 1 \<le> a then int (lb_up b a) else - int (lb_down (b - 1) a));
         m = rhe (a * pow2 (int LENGTH('f) - e));
         n = nat ((e + int b - 1) * 2 ^ LENGTH('f) + m)
     in if (2 ^ LENGTH('e) - 1) * 2 ^ LENGTH('f) \<le> n then (q < 0, - 1, 0)
        else (q < 0, of_nat (n div 2 ^ LENGTH('f)), of_nat (n mod 2 ^ LENGTH('f))))"

subsection \<open>Arithmetic, comparisons and conversions\<close>

definition fneg :: "('e::len, 'f::len) float \<Rightarrow> ('e, 'f) float" where
  "fneg x = (\<not> fst x, snd x)"

definition fabs :: "('e::len, 'f::len) float \<Rightarrow> ('e, 'f) float" where
  "fabs x = (False, snd x)"

text \<open>
  An exact sum of zero is \<open>+0\<close> unless both operands are negative zeros; every other
  finite sum is rounded once.
\<close>

definition fadd :: "('e::len, 'f::len) float \<Rightarrow> ('e, 'f) float \<Rightarrow> ('e, 'f) float" where
  "fadd a b =
    (if is_nan a \<or> is_nan b then the_nan
     else if is_inf a then (if is_inf b \<and> sign a \<noteq> sign b then the_nan else a)
     else if is_inf b then b
     else if valof a + valof b = 0 then zero_of (sign a \<and> sign b)
     else fround (valof a + valof b))"

definition fsub :: "('e::len, 'f::len) float \<Rightarrow> ('e, 'f) float \<Rightarrow> ('e, 'f) float" where
  "fsub a b = fadd a (fneg b)"

definition fmul :: "('e::len, 'f::len) float \<Rightarrow> ('e, 'f) float \<Rightarrow> ('e, 'f) float" where
  "fmul a b =
    (if is_nan a \<or> is_nan b then the_nan
     else if (is_inf a \<and> is_zero b) \<or> (is_zero a \<and> is_inf b) then the_nan
     else if is_inf a \<or> is_inf b then inf_of (sign a \<noteq> sign b)
     else if valof a * valof b = 0 then zero_of (sign a \<noteq> sign b)
     else fround (valof a * valof b))"

definition fdiv :: "('e::len, 'f::len) float \<Rightarrow> ('e, 'f) float \<Rightarrow> ('e, 'f) float" where
  "fdiv a b =
    (if is_nan a \<or> is_nan b then the_nan
     else if (is_inf a \<and> is_inf b) \<or> (is_zero a \<and> is_zero b) then the_nan
     else if is_inf a \<or> is_zero b then inf_of (sign a \<noteq> sign b)
     else if is_inf b \<or> is_zero a then zero_of (sign a \<noteq> sign b)
     else fround (valof a / valof b))"

text \<open>Comparisons: false as soon as an operand is a NaN.\<close>

definition flt :: "('e::len, 'f::len) float \<Rightarrow> ('e, 'f) float \<Rightarrow> bool" where
  "flt a b = (\<not> is_nan a \<and> \<not> is_nan b \<and> valof a < valof b)"

definition fle :: "('e::len, 'f::len) float \<Rightarrow> ('e, 'f) float \<Rightarrow> bool" where
  "fle a b = (\<not> is_nan a \<and> \<not> is_nan b \<and> valof a \<le> valof b)"

definition fgt :: "('e::len, 'f::len) float \<Rightarrow> ('e, 'f) float \<Rightarrow> bool" where
  "fgt a b = flt b a"

definition fge :: "('e::len, 'f::len) float \<Rightarrow> ('e, 'f) float \<Rightarrow> bool" where
  "fge a b = fle b a"

text \<open>\<^verbatim>\<open>np.rint\<close>: the nearest integer, ties to even, keeping the sign of a zero result.\<close>

definition frint :: "('e::len, 'f::len) float \<Rightarrow> ('e, 'f) float" where
  "frint x =
    (if \<not> is_finite x then x
     else if rhe (valof x) = 0 then zero_of (sign x)
     else fround (of_int (rhe (valof x))))"

text \<open>Conversion between formats (\<^verbatim>\<open>astype\<close>, \<^verbatim>\<open>float(...)\<close>, a Python scalar meeting an array).\<close>

definition fcast :: "('e::len, 'f::len) float \<Rightarrow> ('g::len, 'h::len) float" where
  "fcast x =
    (if is_nan x then the_nan
     else if is_inf x then inf_of (sign x)
     else if is_zero x then zero_of (sign x)
     else fround (valof x))"

text \<open>
  A Python float literal is the \<^verbatim>\<open>float64\<close> nearest to the decimal written in the source.
  In an operation with a \<^verbatim>\<open>float32\<close> array NumPy converts the Python scalar to
  \<^verbatim>\<open>float32\<close> and computes in \<^verbatim>\<open>float32\<close>.
\<close>

definition py_float :: "real \<Rightarrow> float64" where
  "py_float q = fround q"

definition as_float32 :: "float64 \<Rightarrow> float32" where
  "as_float32 x = fcast x"

text \<open>A Python or NumPy integer converted to \<^verbatim>\<open>float64\<close>.\<close>

definition float64_of_int :: "int \<Rightarrow> float64" where
  "float64_of_int n = fround (of_int n)"

text \<open>
  \<^verbatim>\<open>round(x, ndigits)\<close> on a NumPy \<^verbatim>\<open>float64\<close> scalar is NumPy's rounding: multiply by
  \<open>10 ^ ndigits\<close>, \<^verbatim>\<open>rint\<close>, divide by \<open>10 ^ ndigits\<close>, each in \<^verbatim>\<open>float64\<close>.
\<close>

definition np_round :: "float64 \<Rightarrow> nat \<Rightarrow> float64" where
  "np_round x ndigits =
     fdiv (frint (fmul x (float64_of_int (10 ^ ndigits)))) (float64_of_int (10 ^ ndigits))"

text \<open>
  \<^verbatim>\<open>round(x, ndigits)\<close> on a Python float rounds the exact value of \<open>x\<close> to the decimal
  with \<open>ndigits\<close> places, ties to even, and returns the \<^verbatim>\<open>float64\<close> nearest to that decimal.
\<close>

definition py_round :: "float64 \<Rightarrow> nat \<Rightarrow> float64" where
  "py_round x ndigits =
    (if \<not> is_finite x then x
     else if rhe (valof x * 10 ^ ndigits) = 0 then zero_of (sign x)
     else fround (of_int (rhe (valof x * 10 ^ ndigits)) / 10 ^ ndigits))"

section \<open>Arrays\<close>

text \<open>
  A NumPy array is its shape and its elements in row-major order. The arrays of the
  program are two-dimensional band grids and the one-dimensional selections that a
  boolean mask takes from them.
\<close>

record 'a ndarray =
  shape :: "nat list"
  data :: "'a list"

definition wf_array :: "'a ndarray \<Rightarrow> bool" where
  "wf_array a = (length (data a) = prod_list (shape a))"

definition np_map :: "('a \<Rightarrow> 'b) \<Rightarrow> 'a ndarray \<Rightarrow> 'b ndarray" where
  "np_map f a = \<lparr>shape = shape a, data = map f (data a)\<rparr>"

text \<open>An elementwise operation on two arrays of one shape.\<close>

definition np_map2 :: "('a \<Rightarrow> 'b \<Rightarrow> 'c) \<Rightarrow> 'a ndarray \<Rightarrow> 'b ndarray \<Rightarrow> 'c ndarray" where
  "np_map2 f a b = \<lparr>shape = shape a, data = map2 f (data a) (data b)\<rparr>"

text \<open>\<^verbatim>\<open>a[mask]\<close>: the elements of \<open>a\<close> where the mask is true, in order, as a 1-D array.\<close>

definition select_mask :: "'a ndarray \<Rightarrow> bool ndarray \<Rightarrow> 'a ndarray" where
  "select_mask a m =
     (let xs = map fst (filter snd (zip (data a) (data m))) in \<lparr>shape = [length xs], data = xs\<rparr>)"

text \<open>\<^verbatim>\<open>a[mask] = v\<close>: the elements of \<open>v\<close> go, in order, to the places where the mask is true.\<close>

fun assign_list :: "'a list \<Rightarrow> bool list \<Rightarrow> 'a list \<Rightarrow> 'a list" where
  "assign_list (x # xs) (True # ms) (v # vs) = v # assign_list xs ms vs"
| "assign_list (x # xs) (False # ms) vs = x # assign_list xs ms vs"
| "assign_list xs ms vs = xs"

definition assign_mask :: "'a ndarray \<Rightarrow> bool ndarray \<Rightarrow> 'a ndarray \<Rightarrow> 'a ndarray" where
  "assign_mask a m v = \<lparr>shape = shape a, data = assign_list (data a) (data m) (data v)\<rparr>"

text \<open>\<^verbatim>\<open>np.sum\<close> of a boolean array counts its true elements.\<close>

definition np_sum :: "bool ndarray \<Rightarrow> nat" where
  "np_sum m = length (filter id (data m))"

text \<open>
  \<^verbatim>\<open>np.clip\<close> on one element: NumPy computes \<^verbatim>\<open>min(max(x, lo), hi)\<close> and a NaN stays
  a NaN.
\<close>

definition clip1 :: "('e::len, 'f::len) float \<Rightarrow> ('e, 'f) float \<Rightarrow> ('e, 'f) float \<Rightarrow> ('e, 'f) float" where
  "clip1 lo hi x =
    (let t = (if is_nan x then x else if fgt x lo then x else lo)
     in if is_nan t then t else if flt t hi then t else hi)"

text \<open>
  \<^verbatim>\<open>np.min\<close> and \<^verbatim>\<open>np.max\<close> of a non-empty 1-D array, reduced from left to right with
  \<^verbatim>\<open>np.minimum\<close> and \<^verbatim>\<open>np.maximum\<close>: a NaN propagates, and of two values that compare
  equal (the zeros of the two signs) the later one is kept.
\<close>

definition np_min :: "('e::len, 'f::len) float list \<Rightarrow> ('e, 'f) float" where
  "np_min xs = (case xs of [] \<Rightarrow> the_nan
     | x # ys \<Rightarrow> foldl (\<lambda>acc v. if flt acc v \<or> is_nan acc then acc else v) x ys)"

definition np_max :: "('e::len, 'f::len) float list \<Rightarrow> ('e, 'f) float" where
  "np_max xs = (case xs of [] \<Rightarrow> the_nan
     | x # ys \<Rightarrow> foldl (\<lambda>acc v. if fgt acc v \<or> is_nan acc then acc else v) x ys)"

section \<open>Formatting a shape\<close>

text \<open>
  The f-string of the error message prints each shape as Python prints a tuple of
  integers: \<^verbatim>\<open>()\<close>, \<^verbatim>\<open>(3,)\<close>, \<^verbatim>\<open>(3, 4)\<close>.
\<close>

function str_nat :: "nat \<Rightarrow> string" where
  "str_nat n = (if n < 10 then [''0123456789'' ! n]
                else str_nat (n div 10) @ [''0123456789'' ! (n mod 10)])"
  by pat_completeness auto
termination
  by (relation "measure id") auto

declare str_nat.simps [simp del]

fun join_comma :: "string list \<Rightarrow> string" where
  "join_comma [] = []"
| "join_comma [s] = s"
| "join_comma (s # t # ts) = s @ '', '' @ join_comma (t # ts)"

definition repr_shape :: "nat list \<Rightarrow> string" where
  "repr_shape ns =
    (case ns of [] \<Rightarrow> ''()''
     | [n] \<Rightarrow> ''('' @ str_nat n @ '',)''
     | _ \<Rightarrow> ''('' @ join_comma (map str_nat ns) @ '')'')"

section \<open>The NDVI transform\<close>

datatype error = ValueError string

text \<open>The Python literals of the program, as they meet the \<^verbatim>\<open>float32\<close> arrays.\<close>

definition eps32 :: float32 where
  "eps32 = as_float32 (py_float (1 / 10 ^ 6))"

definition clip_lo :: float32 where
  "clip_lo = as_float32 (py_float (- 1))"

definition clip_hi :: float32 where
  "clip_hi = as_float32 (py_float 1)"

text \<open>
  \<^verbatim>\<open>compute_ndvi(red_band, nir_band)\<close>, statement by statement: the shape check that
  raises \<^verbatim>\<open>ValueError\<close>, numerator and denominator, the array of zeros, the mask
  \<^verbatim>\<open>np.abs(denominator) > 1e-6\<close>, the division of the selected elements written back
  under the mask, and the clip to \<open>[-1, 1]\<close>.
\<close>

definition compute_ndvi :: "float32 ndarray \<Rightarrow> float32 ndarray \<Rightarrow> error + float32 ndarray" where
  "compute_ndvi red_band nir_band =
    (if shape red_band \<noteq> shape nir_band then
       Inl (ValueError (''Band dimension mismatch: RED '' @ repr_shape (shape red_band) @
              '' vs NIR '' @ repr_shape (shape nir_band)))
     else
       let numerator = np_map2 fsub nir_band red_band;
           denominator = np_map2 fadd nir_band red_band;
           ndvi = np_map (\<lambda>_. plus_zero) numerator;
           valid_mask = np_map (\<lambda>d. fgt (fabs d) eps32) denominator;
           ndvi = assign_mask ndvi valid_mask
                    (np_map2 fdiv (select_mask numerator valid_mask)
                                  (select_mask denominator valid_mask));
           ndvi = np_map (clip1 clip_lo clip_hi) ndvi
       in Inr ndvi)"

section \<open>The statistics\<close>

definition t02 :: float32 where
  "t02 = as_float32 (py_float (2 / 10))"

definition t04 :: float32 where
  "t04 = as_float32 (py_float (4 / 10))"

definition t06 :: float32 where
  "t06 = as_float32 (py_float (6 / 10))"

text \<open>\<^verbatim>\<open>valid_ndvi = ndvi[np.isfinite(ndvi)]\<close>\<close>

definition valid_pixels :: "float32 ndarray \<Rightarrow> float32 ndarray" where
  "valid_pixels ndvi = select_mask ndvi (np_map is_finite ndvi)"

text \<open>The four counts, each the \<^verbatim>\<open>np.sum\<close> of a boolean array over the valid pixels.\<close>

definition healthy :: "float32 ndarray \<Rightarrow> nat" where
  "healthy valid_ndvi = np_sum (np_map (\<lambda>v. fgt v t06) valid_ndvi)"

definition moderate :: "float32 ndarray \<Rightarrow> nat" where
  "moderate valid_ndvi =
     np_sum (np_map2 (\<and>) (np_map (\<lambda>v. fgt v t04) valid_ndvi) (np_map (\<lambda>v. fle v t06) valid_ndvi))"

definition stressed :: "float32 ndarray \<Rightarrow> nat" where
  "stressed valid_ndvi =
     np_sum (np_map2 (\<and>) (np_map (\<lambda>v. fgt v t02) valid_ndvi) (np_map (\<lambda>v. fle v t04) valid_ndvi))"

definition bare :: "float32 ndarray \<Rightarrow> nat" where
  "bare valid_ndvi = np_sum (np_map (\<lambda>v. fle v t02) valid_ndvi)"

text \<open>\<^verbatim>\<open>round((count / total_pixels) * 100, 2)\<close>: a NumPy \<^verbatim>\<open>float64\<close> all the way.\<close>

definition percent :: "nat \<Rightarrow> nat \<Rightarrow> float64" where
  "percent count total_pixels =
     np_round (fmul (fdiv (float64_of_int (int count)) (float64_of_int (int total_pixels)))
                    (float64_of_int 100)) 2"

text \<open>
  The dictionary that \<^verbatim>\<open>calculate_statistics\<close> returns. The entries \<^verbatim>\<open>mean_ndvi\<close> and
  \<^verbatim>\<open>std_ndvi\<close> (NumPy's pairwise summation and a square root) are left out: no property
  below is about them.
\<close>

record stats =
  healthy_vegetation_percent :: float64
  moderate_vegetation_percent :: float64
  stressed_vegetation_percent :: float64
  bare_land_percent :: float64
  min_ndvi :: float64
  max_ndvi :: float64
  total_valid_pixels :: nat

definition calculate_statistics :: "float32 ndarray \<Rightarrow> error + stats" where
  "calculate_statistics ndvi =
    (let valid_ndvi = valid_pixels ndvi in
     if length (data valid_ndvi) = 0 then
       Inl (ValueError ''No valid NDVI pixels found after masking'')
     else
       let total_pixels = length (data valid_ndvi) in
       Inr \<lparr>healthy_vegetation_percent = percent (healthy valid_ndvi) total_pixels,
            moderate_vegetation_percent = percent (moderate valid_ndvi) total_pixels,
            stressed_vegetation_percent = percent (stressed valid_ndvi) total_pixels,
            bare_land_percent = percent (bare valid_ndvi) total_pixels,
            min_ndvi = py_round (fcast (np_min (data valid_ndvi))) 3,
            max_ndvi = py_round (fcast (np_max (data valid_ndvi))) 3,
            total_valid_pixels = total_pixels\<rparr>)"

section \<open>The two functions over a store of array objects\<close>

text \<open>
  Python hands arrays over by reference, so whether a function leaves its arguments alone
  is a question about the store. Here the store is the list of the array objects created
  so far, and a reference is a position in it. Each NumPy operation of the two functions
  (\<^verbatim>\<open>-\<close>, \<^verbatim>\<open>+\<close>, \<^verbatim>\<open>/\<close>, \<^verbatim>\<open>np.abs\<close>, a comparison with a scalar, \<^verbatim>\<open>&\<close>, \<^verbatim>\<open>np.isfinite\<close>,
  \<^verbatim>\<open>np.zeros_like\<close>, \<^verbatim>\<open>np.clip\<close> and the selection \<^verbatim>\<open>a[mask]\<close>) reads its operands and puts
  its result into a new object; the one statement that writes into an object that is
  there already is \<^verbatim>\<open>ndvi[valid_mask] = ...\<close>. The reductions \<^verbatim>\<open>np.sum\<close>, \<^verbatim>\<open>np.min\<close>,
  \<^verbatim>\<open>np.max\<close> and the attributes \<^verbatim>\<open>shape\<close> and \<^verbatim>\<open>size\<close> give values, not arrays. Objects are
  never taken out of the store: the program cannot tell whether an object it holds no
  reference to is still there. A computation is \<open>None\<close> when it follows a reference
  that is not one of an array of the expected kind, which a Python program cannot do.
\<close>

datatype obj = FloatArray "float32 ndarray" | BoolArray "bool ndarray"

type_synonym addr = nat
type_synonym store = "obj list"



definition get_bool :: "addr \<Rightarrow> store \<Rightarrow> bool ndarray option" where
  "get_bool a h =
    (if a < length h then (case h ! a of FloatArray x \<Rightarrow> None | BoolArray m \<Rightarrow> Some m) else None)"












section \<open>Basic facts about the fields\<close>

lemma expo_less: "expo (x :: ('e::len, 'f::len) float) \<le> emax x"
proof -
  have "unat (fst (snd x)) < 2 ^ LENGTH('e)"
    by (rule unsigned_less)
  then show ?thesis
    unfolding expo_def emax_def by arith
qed

lemma two_le_pow_len: "(2::nat) \<le> 2 ^ LENGTH('a::len)"
  using power_increasing [of 1 "LENGTH('a)" "2::nat"] by (simp add: Suc_leI)

lemma emax_pos: "0 < emax (x :: ('e::len, 'f::len) float)"
  using two_le_pow_len [where 'a='e] by (simp add: emax_def)

lemma frac_less: "frac (x :: ('e::len, 'f::len) float) < 2 ^ fbits x"
  unfolding frac_def fbits_def by (rule unsigned_less)

lemma is_finite_iff: "is_finite x \<longleftrightarrow> \<not> is_nan x \<and> \<not> is_inf x"
  by (auto simp: is_finite_def is_nan_def is_inf_def)

lemma sign_simp [simp]: "sign (s, ef) = s"
  by (simp add: sign_def)

lemma expo_ones: "expo ((s, - 1, f) :: ('e::len, 'f::len) float) = 2 ^ LENGTH('e) - 1"
  by (simp add: expo_def unsigned_minus_1_eq_mask mask_eq_exp_minus_1)

lemma zero_of_simps [simp]:
  "expo (zero_of s :: ('e::len, 'f::len) float) = 0"
  "frac (zero_of s :: ('e::len, 'f::len) float) = 0"
  "sign (zero_of s :: ('e::len, 'f::len) float) = s"
  "is_finite (zero_of s :: ('e::len, 'f::len) float)"
  "\<not> is_nan (zero_of s :: ('e::len, 'f::len) float)"
  "\<not> is_inf (zero_of s :: ('e::len, 'f::len) float)"
  "is_zero (zero_of s :: ('e::len, 'f::len) float)"
  "valof (zero_of s :: ('e::len, 'f::len) float) = 0"
  using two_le_pow_len [where 'a='e]
  by (simp_all add: zero_of_def expo_def frac_def is_finite_def is_nan_def is_inf_def is_zero_def
      emax_def valof_def mant_def)

lemma plus_zero_simps [simp]:
  "is_finite (plus_zero :: ('e::len, 'f::len) float)"
  "\<not> is_nan (plus_zero :: ('e::len, 'f::len) float)"
  "valof (plus_zero :: ('e::len, 'f::len) float) = 0"
  using zero_of_simps [of False] by (simp_all add: zero_of_def plus_zero_def)

lemma inf_of_simps [simp]:
  "is_inf (inf_of s :: ('e::len, 'f::len) float)"
  "\<not> is_nan (inf_of s :: ('e::len, 'f::len) float)"
  "\<not> is_finite (inf_of s :: ('e::len, 'f::len) float)"
  "sign (inf_of s :: ('e::len, 'f::len) float) = s"
  by (simp_all add: inf_of_def is_inf_def is_nan_def is_finite_def expo_ones emax_def frac_def)

lemma the_nan_simps [simp]:
  "is_nan (the_nan :: ('e::len, 'f::len) float)"
  "\<not> is_finite (the_nan :: ('e::len, 'f::len) float)"
  by (simp_all add: the_nan_def is_nan_def is_finite_def expo_ones emax_def frac_def)

lemma fabs_simps [simp]:
  "expo (fabs x) = expo x" "frac (fabs x) = frac x" "sign (fabs x) = False"
  "is_nan (fabs x) = is_nan x" "is_inf (fabs x) = is_inf x" "is_finite (fabs x) = is_finite x"
  by (simp_all add: fabs_def expo_def frac_def is_nan_def is_inf_def is_finite_def emax_def)

lemma fneg_simps [simp]:
  "expo (fneg x) = expo x" "frac (fneg x) = frac x" "sign (fneg x) = (\<not> sign x)"
  "is_nan (fneg x) = is_nan x" "is_inf (fneg x) = is_inf x" "is_finite (fneg x) = is_finite x"
  by (simp_all add: fneg_def expo_def frac_def sign_def is_nan_def is_inf_def is_finite_def emax_def)

lemma pow2_pos [simp]: "0 < pow2 k"
  by (simp add: pow2_def)

lemma valof_fabs: "valof (fabs x) = \<bar>valof x\<bar>"
  by (simp add: valof_def mant_def bias_def fbits_def abs_mult less_imp_le [OF pow2_pos])

lemma valof_fneg: "valof (fneg x) = - valof x"
  by (simp add: valof_def mant_def bias_def fbits_def)

lemma is_zero_valof: "is_zero x \<Longrightarrow> valof x = 0"
  by (simp add: is_zero_def valof_def mant_def)

section \<open>The transform and the counts, element by element\<close>

text \<open>
  What \<^verbatim>\<open>compute_ndvi\<close> leaves at one position, from the near-infrared and the red value
  there: the quotient where the mask is true, the zero of \<^verbatim>\<open>np.zeros_like\<close> elsewhere,
  clipped. Lemma \<open>compute_ndvi_data\<close> derives it from the array operations.
\<close>

definition ndvi_pixel :: "float32 \<Rightarrow> float32 \<Rightarrow> float32" where
  "ndvi_pixel n r =
     clip1 clip_lo clip_hi
       (if fgt (fabs (fadd n r)) eps32 then fdiv (fsub n r) (fadd n r) else plus_zero)"

lemma length_assign_list [simp]: "length (assign_list xs ms vs) = length xs"
  by (induction xs ms vs rule: assign_list.induct) auto

lemma assign_select:
  "length ns = length ds \<Longrightarrow>
   assign_list (map (\<lambda>_. z) ns) (map p ds)
     (map2 f (map fst (filter snd (zip ns (map p ds)))) (map fst (filter snd (zip ds (map p ds)))))
   = map2 (\<lambda>n d. if p d then f n d else z) ns ds"
  by (induction ns ds rule: list_induct2) auto

lemma map2_fuse:
  "map2 g (map2 a xs ys) (map2 b xs ys) = map2 (\<lambda>x y. g (a x y) (b x y)) xs ys"
proof (induction xs arbitrary: ys)
  case Nil
  then show ?case by simp
next
  case (Cons x xs)
  then show ?case by (cases ys) auto
qed

lemma compute_ndvi_data:
  assumes "shape red_band = shape nir_band"
  shows "compute_ndvi red_band nir_band =
     Inr \<lparr>shape = shape nir_band, data = map2 ndvi_pixel (data nir_band) (data red_band)\<rparr>"
proof -
  let ?ns = "map2 fsub (data nir_band) (data red_band)"
  let ?ds = "map2 fadd (data nir_band) (data red_band)"
  let ?p = "\<lambda>d. fgt (fabs d) eps32"
  have len: "length ?ns = length ?ds" by simp
  have sel: "assign_list (map (\<lambda>_. plus_zero) ?ns) (map ?p ?ds)
      (map2 fdiv (map fst (filter snd (zip ?ns (map ?p ?ds))))
                 (map fst (filter snd (zip ?ds (map ?p ?ds)))))
    = map2 (\<lambda>n d. if ?p d then fdiv n d else plus_zero) ?ns ?ds"
    by (rule assign_select [OF len])
  have pix: "map (clip1 clip_lo clip_hi) (map2 (\<lambda>n d. if ?p d then fdiv n d else plus_zero) ?ns ?ds)
     = map2 ndvi_pixel (data nir_band) (data red_band)"
    unfolding map2_fuse by (simp add: ndvi_pixel_def case_prod_beta)
  show ?thesis
    using assms
    by (simp add: compute_ndvi_def np_map2_def np_map_def assign_mask_def select_mask_def Let_def
        sel pix del: map_map)
qed

lemma valid_pixels_data: "data (valid_pixels ndvi) = filter is_finite (data ndvi)"
proof -
  have "map fst (filter snd (zip xs (map p xs))) = filter p xs" for xs :: "'a list" and p
    by (induction xs) auto
  then show ?thesis
    by (simp add: valid_pixels_def select_mask_def np_map_def Let_def)
qed

lemma np_sum_map: "np_sum (np_map p a) = length (filter p (data a))"
proof -
  have "length (filter id (map p xs)) = length (filter p xs)" for xs :: "'a list"
    by (induction xs) auto
  then show ?thesis by (simp add: np_sum_def np_map_def)
qed

lemma np_sum_and: "np_sum (np_map2 (\<and>) (np_map p a) (np_map q a)) =
    length (filter (\<lambda>v. p v \<and> q v) (data a))"
proof -
  have "length (filter id (map2 (\<and>) (map p xs) (map q xs))) = length (filter (\<lambda>v. p v \<and> q v) xs)"
    for xs :: "'a list"
    by (induction xs) auto
  then show ?thesis by (simp add: np_sum_def np_map_def np_map2_def)
qed

lemma calculate_statistics_none:
  "filter is_finite (data ndvi) = [] \<Longrightarrow>
   calculate_statistics ndvi = Inl (ValueError ''No valid NDVI pixels found after masking'')"
  unfolding calculate_statistics_def Let_def valid_pixels_data by simp

lemma calculate_statistics_some:
  "filter is_finite (data ndvi) \<noteq> [] \<Longrightarrow>
   calculate_statistics ndvi =
     Inr \<lparr>healthy_vegetation_percent =
            percent (healthy (valid_pixels ndvi)) (length (filter is_finite (data ndvi))),
          moderate_vegetation_percent =
            percent (moderate (valid_pixels ndvi)) (length (filter is_finite (data ndvi))),
          stressed_vegetation_percent =
            percent (stressed (valid_pixels ndvi)) (length (filter is_finite (data ndvi))),
          bare_land_percent =
            percent (bare (valid_pixels ndvi)) (length (filter is_finite (data ndvi))),
          min_ndvi = py_round (fcast (np_min (filter is_finite (data ndvi)))) 3,
          max_ndvi = py_round (fcast (np_max (filter is_finite (data ndvi)))) 3,
          total_valid_pixels = length (filter is_finite (data ndvi))\<rparr>"
  unfolding calculate_statistics_def Let_def valid_pixels_data by simp


lemma calculate_statistics_fields:
  "filter is_finite (data ndvi) \<noteq> [] \<Longrightarrow>
   \<exists>st. calculate_statistics ndvi = Inr st \<and>
     healthy_vegetation_percent st =
       percent (healthy (valid_pixels ndvi)) (length (filter is_finite (data ndvi))) \<and>
     moderate_vegetation_percent st =
       percent (moderate (valid_pixels ndvi)) (length (filter is_finite (data ndvi))) \<and>
     stressed_vegetation_percent st =
       percent (stressed (valid_pixels ndvi)) (length (filter is_finite (data ndvi))) \<and>
     bare_land_percent st =
       percent (bare (valid_pixels ndvi)) (length (filter is_finite (data ndvi))) \<and>
     total_valid_pixels st = length (filter is_finite (data ndvi))"
  by (simp add: calculate_statistics_some)

section \<open>The minimum and the maximum of zeros of both signs\<close>

text \<open>Of two zeros of different sign, \<^verbatim>\<open>np.min\<close> and \<^verbatim>\<open>np.max\<close> both give the later one.\<close>

lemma np_min_max_zeros:
  "np_min [zero_of True, zero_of False :: float32] = zero_of False"
  "np_min [zero_of False, zero_of True :: float32] = zero_of True"
  "np_max [zero_of True, zero_of False :: float32] = zero_of False"
  "np_max [zero_of False, zero_of True :: float32] = zero_of True"
  by (simp_all add: np_min_def np_max_def fgt_def flt_def)

section \<open>The literals of the program, bit by bit\<close>

lemmas field_defs = expo_def frac_def emax_def is_nan_def is_inf_def is_zero_def is_finite_def

lemmas valof_defs = valof_def mant_def expo_def frac_def bias_def fbits_def pow2_def

lemma eps32_eq: "eps32 = (False, 107, 407485)"
proof -
  have "py_float (1 / 10 ^ 6) = (False, 1003, 218766855499149)"
    unfolding py_float_def fround_def Let_def
    apply (simp add: lb_up.simps lb_down.simps pow2_def)?
    apply (simp add: rhe_def Let_def)?
    done
  then show ?thesis
    unfolding eps32_def as_float32_def fcast_def
    apply (simp add: field_defs)?
    apply (simp add: valof_defs)?
    unfolding fround_def Let_def
    apply (simp add: lb_up.simps lb_down.simps pow2_def)?
    apply (simp add: rhe_def Let_def)?
    done
qed

lemma t02_eq: "t02 = (False, 124, 5033165)"
proof -
  have "py_float (2 / 10) = (False, 1020, 2702159776422298)"
    unfolding py_float_def fround_def Let_def
    apply (simp add: lb_up.simps lb_down.simps pow2_def)?
    apply (simp add: rhe_def Let_def)?
    done
  then show ?thesis
    unfolding t02_def as_float32_def fcast_def
    apply (simp add: field_defs)?
    apply (simp add: valof_defs)?
    unfolding fround_def Let_def
    apply (simp add: lb_up.simps lb_down.simps pow2_def)?
    apply (simp add: rhe_def Let_def)?
    done
qed

lemma t04_eq: "t04 = (False, 125, 5033165)"
proof -
  have "py_float (4 / 10) = (False, 1021, 2702159776422298)"
    unfolding py_float_def fround_def Let_def
    apply (simp add: lb_up.simps lb_down.simps pow2_def)?
    apply (simp add: rhe_def Let_def)?
    done
  then show ?thesis
    unfolding t04_def as_float32_def fcast_def
    apply (simp add: field_defs)?
    apply (simp add: valof_defs)?
    unfolding fround_def Let_def
    apply (simp add: lb_up.simps lb_down.simps pow2_def)?
    apply (simp add: rhe_def Let_def)?
    done
qed

lemma t06_eq: "t06 = (False, 126, 1677722)"
proof -
  have "py_float (6 / 10) = (False, 1022, 900719925474099)"
    unfolding py_float_def fround_def Let_def
    apply (simp add: lb_up.simps lb_down.simps pow2_def)?
    apply (simp add: rhe_def Let_def)?
    done
  then show ?thesis
    unfolding t06_def as_float32_def fcast_def
    apply (simp add: field_defs)?
    apply (simp add: valof_defs)?
    unfolding fround_def Let_def
    apply (simp add: lb_up.simps lb_down.simps pow2_def)?
    apply (simp add: rhe_def Let_def)?
    done
qed

lemma clip_lo_eq: "clip_lo = (True, 127, 0)"
proof -
  have "py_float (- 1) = (True, 1023, 0)"
    unfolding py_float_def fround_def Let_def
    apply (simp add: lb_up.simps lb_down.simps pow2_def)?
    apply (simp add: rhe_def Let_def)?
    done
  then show ?thesis
    unfolding clip_lo_def as_float32_def fcast_def
    apply (simp add: field_defs)?
    apply (simp add: valof_defs)?
    unfolding fround_def Let_def
    apply (simp add: lb_up.simps lb_down.simps pow2_def)?
    apply (simp add: rhe_def Let_def)?
    done
qed

lemma clip_hi_eq: "clip_hi = (False, 127, 0)"
proof -
  have "py_float 1 = (False, 1023, 0)"
    unfolding py_float_def fround_def Let_def
    apply (simp add: lb_up.simps lb_down.simps pow2_def)?
    apply (simp add: rhe_def Let_def)?
    done
  then show ?thesis
    unfolding clip_hi_def as_float32_def fcast_def
    apply (simp add: field_defs)?
    apply (simp add: valof_defs)?
    unfolding fround_def Let_def
    apply (simp add: lb_up.simps lb_down.simps pow2_def)?
    apply (simp add: rhe_def Let_def)?
    done
qed

lemma valof_eps32: "valof eps32 = 8796093 / 2 ^ 43"
  unfolding eps32_eq by (simp add: valof_defs)

lemma valof_t02: "valof t02 = 13421773 / 2 ^ 26"
  unfolding t02_eq by (simp add: valof_defs)

lemma valof_t04: "valof t04 = 13421773 / 2 ^ 25"
  unfolding t04_eq by (simp add: valof_defs)

lemma valof_t06: "valof t06 = 5033165 / 2 ^ 23"
  unfolding t06_eq by (simp add: valof_defs)

lemma valof_clip_lo: "valof clip_lo = - 1"
  unfolding clip_lo_eq by (simp add: valof_defs)

lemma valof_clip_hi: "valof clip_hi = 1"
  unfolding clip_hi_eq by (simp add: valof_defs)

lemma consts_not_nan [simp]:
  "\<not> is_nan eps32" "\<not> is_nan t02" "\<not> is_nan t04" "\<not> is_nan t06"
  "\<not> is_nan clip_lo" "\<not> is_nan clip_hi"
  unfolding eps32_eq t02_eq t04_eq t06_eq clip_lo_eq clip_hi_eq
  by (simp_all add: field_defs)

lemma consts_finite [simp]:
  "is_finite clip_lo" "is_finite clip_hi"
  unfolding clip_lo_eq clip_hi_eq
  by (simp_all add: field_defs)

section \<open>Powers of two and rounding to an integer\<close>

lemma pow2_powi: "pow2 k = 2 powi k"
  by (simp add: pow2_def power_int_def field_simps)

lemma pow2_add: "pow2 (a + b) = pow2 a * pow2 b"
  by (simp add: pow2_powi power_int_add)

lemma pow2_diff: "pow2 (a - b) = pow2 a / pow2 b"
  by (simp add: pow2_powi power_int_diff)

lemma pow2_nat [simp]: "pow2 (int n) = 2 ^ n"
  by (simp add: pow2_def)

lemma pow2_0 [simp]: "pow2 0 = 1"
  by (simp add: pow2_def)

lemma pow2_mono: "a \<le> b \<Longrightarrow> pow2 a \<le> pow2 b"
  by (simp add: pow2_powi power_int_increasing)

lemma pow2_strict_mono: "a < b \<Longrightarrow> pow2 a < pow2 b"
  by (simp add: pow2_powi power_int_strict_increasing)

lemma pow2_minus: "pow2 (- a) = 1 / pow2 a"
  by (simp add: pow2_powi power_int_minus field_simps)

lemma rhe_of_int [simp]: "rhe (of_int k) = k"
  by (simp add: rhe_def)

lemma rhe_0 [simp]: "rhe 0 = 0"
  by (simp add: rhe_def)

lemma rhe_numeral [simp]: "rhe (numeral k) = numeral k"
  using rhe_of_int [of "numeral k"] by simp

lemma rhe_error: "\<bar>of_int (rhe x) - x\<bar> \<le> 1 / 2"
  unfolding rhe_def Let_def by (auto; linarith)

lemma rhe_mono: "x \<le> y \<Longrightarrow> rhe x \<le> rhe y"
proof -
  assume xy: "x \<le> y"
  have fl: "\<lfloor>x\<rfloor> \<le> \<lfloor>y\<rfloor>" using xy by (rule floor_mono)
  show ?thesis
  proof (cases "\<lfloor>x\<rfloor> = \<lfloor>y\<rfloor>")
    case True
    then show ?thesis
      using xy unfolding rhe_def Let_def by (auto; linarith)
  next
    case False
    with fl have "\<lfloor>x\<rfloor> + 1 \<le> \<lfloor>y\<rfloor>" by simp
    moreover have "rhe x \<le> \<lfloor>x\<rfloor> + 1" unfolding rhe_def Let_def by auto
    moreover have "\<lfloor>y\<rfloor> \<le> rhe y" unfolding rhe_def Let_def by auto
    ultimately show ?thesis by linarith
  qed
qed

lemma rhe_le: "x \<le> of_int k \<Longrightarrow> rhe x \<le> k"
  using rhe_mono [of x "of_int k"] by simp

lemma rhe_ge: "of_int k \<le> x \<Longrightarrow> k \<le> rhe x"
  using rhe_mono [of "of_int k" x] by simp

lemma rhe_nonneg: "0 \<le> x \<Longrightarrow> 0 \<le> rhe x"
  using rhe_ge [of 0 x] by simp

section \<open>The exponent search\<close>

lemma lb_up_le: "lb_up k a \<le> k"
proof (induction k a rule: lb_up.induct)
  case (1 k a)
  show ?case
  proof (cases "k = 0 \<or> a < 2")
    case True
    then show ?thesis by (subst lb_up.simps) simp
  next
    case False
    with 1 have "lb_up (k - 1) (a / 2) \<le> k - 1" by simp
    with False show ?thesis by (subst lb_up.simps) (simp, arith)
  qed
qed

lemma lb_up_lower: "1 \<le> a \<Longrightarrow> 2 ^ lb_up k a \<le> a"
proof (induction k a rule: lb_up.induct)
  case (1 k a)
  show ?case
  proof (cases "k = 0 \<or> a < 2")
    case True
    with 1(2) show ?thesis by (subst lb_up.simps) simp
  next
    case False
    then have "1 \<le> a / 2" by simp
    with 1(1) False have "2 ^ lb_up (k - 1) (a / 2) \<le> a / 2" by simp
    with False show ?thesis by (subst lb_up.simps) simp
  qed
qed

lemma lb_up_upper: "lb_up k a < k \<Longrightarrow> a < 2 ^ (lb_up k a + 1)"
proof (induction k a rule: lb_up.induct)
  case (1 k a)
  show ?case
  proof (cases "k = 0 \<or> a < 2")
    case True
    with 1(2) have "a < 2" by auto
    with True show ?thesis by (subst lb_up.simps) simp
  next
    case False
    then have eq: "lb_up k a = 1 + lb_up (k - 1) (a / 2)" by (subst lb_up.simps) simp
    with 1(2) False have "lb_up (k - 1) (a / 2) < k - 1" by simp
    with 1(1) False have "a / 2 < 2 ^ (lb_up (k - 1) (a / 2) + 1)" by simp
    then show ?thesis unfolding eq by simp
  qed
qed

lemma lb_down_le: "lb_down k a \<le> k"
proof (induction k a rule: lb_down.induct)
  case (1 k a)
  show ?case
  proof (cases "k = 0 \<or> 1 \<le> a")
    case True
    then show ?thesis by (subst lb_down.simps) simp
  next
    case False
    with 1 have "lb_down (k - 1) (a * 2) \<le> k - 1" by simp
    with False show ?thesis by (subst lb_down.simps) (simp, arith)
  qed
qed

lemma lb_down_upper: "a < 1 \<Longrightarrow> a * 2 ^ lb_down k a < 2"
proof (induction k a rule: lb_down.induct)
  case (1 k a)
  show ?case
  proof (cases "k = 0 \<or> 1 \<le> a")
    case True
    with 1(2) show ?thesis by (subst lb_down.simps) simp
  next
    case False
    then have eq: "lb_down k a = 1 + lb_down (k - 1) (a * 2)" by (subst lb_down.simps) simp
    show ?thesis
    proof (cases "a * 2 < 1")
      case True
      with 1(1) False have "a * 2 * 2 ^ lb_down (k - 1) (a * 2) < 2" by simp
      then show ?thesis unfolding eq by (simp add: mult.assoc)
    next
      case ge: False
      then have "lb_down (k - 1) (a * 2) = 0" by (subst lb_down.simps) simp
      with 1(2) show ?thesis unfolding eq by simp
    qed
  qed
qed

lemma lb_down_lower: "lb_down k a < k \<Longrightarrow> 1 \<le> a * 2 ^ lb_down k a"
proof (induction k a rule: lb_down.induct)
  case (1 k a)
  show ?case
  proof (cases "k = 0 \<or> 1 \<le> a")
    case True
    with 1(2) have "1 \<le> a" by auto
    with True show ?thesis by (subst lb_down.simps) simp
  next
    case False
    then have eq: "lb_down k a = 1 + lb_down (k - 1) (a * 2)" by (subst lb_down.simps) simp
    with 1(2) False have "lb_down (k - 1) (a * 2) < k - 1" by simp
    with 1(1) False have "1 \<le> a * 2 * 2 ^ lb_down (k - 1) (a * 2)" by simp
    then show ?thesis unfolding eq by (simp add: mult.assoc)
  qed
qed

text \<open>The exponent that \<open>fround\<close> gives a magnitude, for the bias \<open>b\<close>.\<close>

definition rexp :: "nat \<Rightarrow> real \<Rightarrow> int" where
  "rexp b a = (if a = 0 then 1 - int b
               else if 1 \<le> a then int (lb_up b a) else - int (lb_down (b - 1) a))"

lemma rexp_range: "1 \<le> b \<Longrightarrow> 1 - int b \<le> rexp b a \<and> rexp b a \<le> int b"
  using lb_up_le [of b a] lb_down_le [of "b - 1" a] by (auto simp: rexp_def)

lemma rexp_upper: "0 \<le> a \<Longrightarrow> rexp b a < int b \<Longrightarrow> a < pow2 (rexp b a + 1)"
proof -
  assume a: "0 \<le> a" and lt: "rexp b a < int b"
  show ?thesis
  proof (cases "1 \<le> a")
    case True
    then have e: "rexp b a = int (lb_up b a)" by (simp add: rexp_def)
    with lt have "lb_up b a < b" by simp
    then have "a < 2 ^ (lb_up b a + 1)" by (rule lb_up_upper)
    moreover have "pow2 (rexp b a + 1) = 2 ^ (lb_up b a + 1)"
      unfolding e using pow2_nat [of "lb_up b a + 1"] by (simp add: add.commute)
    ultimately show ?thesis by simp
  next
    case False
    show ?thesis
    proof (cases "a = 0")
      case True
      then show ?thesis by simp
    next
      case nz: False
      with False have e: "rexp b a = - int (lb_down (b - 1) a)" by (simp add: rexp_def)
      from False have "a * 2 ^ lb_down (b - 1) a < 2" by (intro lb_down_upper) simp
      then have "a < 2 / 2 ^ lb_down (b - 1) a" by (simp add: field_simps)
      moreover have "pow2 (rexp b a + 1) = 2 / 2 ^ lb_down (b - 1) a"
        unfolding e using pow2_add [of "- int (lb_down (b - 1) a)" 1]
        by (simp add: pow2_minus pow2_def)
      ultimately show ?thesis by simp
    qed
  qed
qed

lemma rexp_lower: "1 - int b < rexp b a \<Longrightarrow> pow2 (rexp b a) \<le> a"
proof -
  assume gt: "1 - int b < rexp b a"
  then have nz: "a \<noteq> 0" by (auto simp: rexp_def)
  show ?thesis
  proof (cases "1 \<le> a")
    case True
    then have e: "rexp b a = int (lb_up b a)" by (simp add: rexp_def)
    from True have "2 ^ lb_up b a \<le> a" by (rule lb_up_lower)
    then show ?thesis unfolding e by simp
  next
    case False
    with nz have e: "rexp b a = - int (lb_down (b - 1) a)" by (simp add: rexp_def)
    with gt have "lb_down (b - 1) a < b - 1" by simp
    then have "1 \<le> a * 2 ^ lb_down (b - 1) a" by (rule lb_down_lower)
    then have "1 / 2 ^ lb_down (b - 1) a \<le> a" by (simp add: field_simps)
    then show ?thesis unfolding e by (simp add: pow2_minus)
  qed
qed

section \<open>What rounding returns\<close>

lemma expo_mk: "n < 2 ^ LENGTH('e) \<Longrightarrow> expo ((s, of_nat n, w) :: ('e::len, 'f::len) float) = n"
  by (simp add: expo_def unat_of_nat)

lemma frac_mk: "n < 2 ^ LENGTH('f) \<Longrightarrow> frac ((s, w, of_nat n) :: ('e::len, 'f::len) float) = n"
  by (simp add: frac_def unat_of_nat)

lemma emax_bias: "1 < LENGTH('e) \<Longrightarrow>
    emax (x :: ('e::len, 'f::len) float) = 2 * bias x + 1 \<and> 1 \<le> bias x"
proof -
  assume "1 < LENGTH('e)"
  then obtain k where k: "LENGTH('e) = Suc (Suc k)"
    using less_imp_Suc_add [of 1 "LENGTH('e)"] by auto
  have "1 \<le> (2::nat) ^ k" by simp
  then show ?thesis
    unfolding emax_def bias_def k by (simp, arith)
qed

text \<open>The rounded significand and the fields as one number, as \<open>fround\<close> computes them.\<close>

definition rmant :: "nat \<Rightarrow> nat \<Rightarrow> real \<Rightarrow> int" where
  "rmant b f a = rhe (a * pow2 (int f - rexp b a))"

definition rcode :: "nat \<Rightarrow> nat \<Rightarrow> real \<Rightarrow> nat" where
  "rcode b f a = nat ((rexp b a + int b - 1) * 2 ^ f + rmant b f a)"

lemma fround_alt:
  "(fround q :: ('e::len, 'f::len) float) =
     (let n = rcode (2 ^ (LENGTH('e) - 1) - 1) LENGTH('f) \<bar>q\<bar> in
      if (2 ^ LENGTH('e) - 1) * 2 ^ LENGTH('f) \<le> n then (q < 0, - 1, 0)
      else (q < 0, of_nat (n div 2 ^ LENGTH('f)), of_nat (n mod 2 ^ LENGTH('f))))"
  unfolding fround_def rcode_def rmant_def rexp_def Let_def by (rule refl)

lemma sign_fround [simp]: "sign (fround q) = (q < 0)"
  by (simp add: fround_alt Let_def)

lemma fround_not_nan [simp]: "\<not> is_nan (fround q :: ('e::len, 'f::len) float)"
proof -
  let ?n = "rcode (2 ^ (LENGTH('e) - 1) - 1) LENGTH('f) \<bar>q\<bar>"
  show ?thesis
  proof (cases "(2 ^ LENGTH('e) - 1) * 2 ^ LENGTH('f) \<le> ?n")
    case True
    then have "(fround q :: ('e, 'f) float) = inf_of (q < 0)"
      by (simp add: fround_alt inf_of_def)
    then show ?thesis by simp
  next
    case False
    then have "?n < (2 ^ LENGTH('e) - 1) * 2 ^ LENGTH('f)" by simp
    then have d: "?n div 2 ^ LENGTH('f) < 2 ^ LENGTH('e) - 1"
      by (simp add: less_mult_imp_div_less)
    then have "?n div 2 ^ LENGTH('f) < 2 ^ LENGTH('e)" by simp
    then have "expo ((q < 0, of_nat (?n div 2 ^ LENGTH('f)), of_nat (?n mod 2 ^ LENGTH('f)))
        :: ('e, 'f) float) = ?n div 2 ^ LENGTH('f)"
      by (rule expo_mk)
    with d False show ?thesis
      by (simp add: fround_alt is_nan_def emax_def Let_def)
  qed
qed

lemma rmant_nonneg: "0 \<le> a \<Longrightarrow> 0 \<le> rmant b f a"
  unfolding rmant_def by (intro rhe_nonneg) (simp add: less_imp_le)

lemma rmant_upper:
  assumes "0 \<le> a" "rexp b a < int b"
  shows "rmant b f a \<le> 2 ^ (f + 1)"
proof -
  have "a < pow2 (rexp b a + 1)" using assms by (rule rexp_upper)
  then have "a * pow2 (int f - rexp b a) \<le> pow2 (rexp b a + 1) * pow2 (int f - rexp b a)"
    by (simp add: less_imp_le)
  also have "\<dots> = pow2 (int (f + 1))"
    unfolding pow2_add [symmetric] by (simp add: algebra_simps)
  also have "\<dots> = of_int (2 ^ (f + 1))" unfolding pow2_nat by simp
  finally show ?thesis unfolding rmant_def by (rule rhe_le)
qed

lemma rmant_lower:
  assumes "1 - int b < rexp b a"
  shows "2 ^ f \<le> rmant b f a"
proof -
  have "pow2 (rexp b a) \<le> a" using assms by (rule rexp_lower)
  then have "pow2 (rexp b a) * pow2 (int f - rexp b a) \<le> a * pow2 (int f - rexp b a)"
    by (simp add: less_imp_le)
  moreover have "pow2 (rexp b a) * pow2 (int f - rexp b a) = pow2 (int f)"
    unfolding pow2_add [symmetric] by (simp add: algebra_simps)
  ultimately have "of_int (2 ^ f) \<le> a * pow2 (int f - rexp b a)" by simp
  then show ?thesis unfolding rmant_def by (rule rhe_ge)
qed

section \<open>The value of a rounded number\<close>

lemma valof_mk:
  assumes "k < 2 ^ LENGTH('e)" "r < 2 ^ LENGTH('f)"
  shows "valof ((s, of_nat k, of_nat r) :: ('e::len, 'f::len) float) =
     (if s then - 1 else 1) * of_nat (if k = 0 then r else 2 ^ LENGTH('f) + r) *
       pow2 (int (max 1 k) - int (2 ^ (LENGTH('e) - 1) - 1) - int LENGTH('f))"
  using assms by (simp add: valof_def mant_def expo_mk frac_mk bias_def fbits_def)

lemma div_mod_code:
  fixes r p k :: nat
  assumes "r < p"
  shows "(k * p + r) div p = k" "(k * p + r) mod p = r"
  using assms by simp_all

lemma valof_code:
  fixes e' mn :: nat
  assumes n: "n = e' * 2 ^ LENGTH('f) + mn"
    and fin: "n < (2 ^ LENGTH('e) - 1) * 2 ^ LENGTH('f)"
    and up: "mn \<le> 2 ^ (LENGTH('f) + 1)"
    and low: "0 < e' \<Longrightarrow> 2 ^ LENGTH('f) \<le> mn"
  shows "valof ((s, of_nat (n div 2 ^ LENGTH('f)), of_nat (n mod 2 ^ LENGTH('f)))
            :: ('e::len, 'f::len) float) =
     (if s then - 1 else 1) * of_nat mn *
       pow2 (int e' + 1 - int (2 ^ (LENGTH('e) - 1) - 1) - int LENGTH('f))"
proof -
  let ?F = "LENGTH('f)"
  let ?B = "2 ^ (LENGTH('e) - 1) - 1 :: nat"
  have "n div 2 ^ ?F < 2 ^ LENGTH('e) - 1"
    using fin by (simp add: less_mult_imp_div_less)
  then have d: "n div 2 ^ ?F < 2 ^ LENGTH('e)" by simp
  have r: "n mod 2 ^ ?F < 2 ^ ?F" by simp
  note v = valof_mk [OF d r, of s]
  consider (sub) "mn < 2 ^ ?F" | (norm) "2 ^ ?F \<le> mn" "mn < 2 ^ (?F + 1)" | (carry) "mn = 2 ^ (?F + 1)"
    using up by fastforce
  then show ?thesis
  proof cases
    case sub
    with low have e0: "e' = 0" by fastforce
    with n sub have "n div 2 ^ ?F = 0" "n mod 2 ^ ?F = mn" by simp_all
    with v e0 show ?thesis by simp
  next
    case norm
    define r' where "r' = mn - 2 ^ ?F"
    have mn: "mn = 2 ^ ?F + r'" and r': "r' < 2 ^ ?F"
      using norm by (simp_all add: r'_def)
    have n': "n = (e' + 1) * 2 ^ ?F + r'" unfolding n mn by simp
    have "n div 2 ^ ?F = e' + 1" "n mod 2 ^ ?F = r'"
      unfolding n' by (rule div_mod_code [OF r'])+
    with v show ?thesis by (simp add: mn algebra_simps)
  next
    case carry
    have n': "n = (e' + 2) * 2 ^ ?F" unfolding n carry by simp
    have dm: "n div 2 ^ ?F = e' + 2" "n mod 2 ^ ?F = 0"
      unfolding n' by simp_all
    have "pow2 (int (e' + 2) - int ?B - int ?F) = 2 * pow2 (int e' + 1 - int ?B - int ?F)"
      using pow2_add [of 1 "int e' + 1 - int ?B - int ?F"] by (simp add: algebra_simps pow2_def)
    with v show ?thesis unfolding dm carry by (simp add: algebra_simps)
  qed
qed

lemma fround_inf:
  assumes "(2 ^ LENGTH('e) - 1) * 2 ^ LENGTH('f) \<le> rcode (2 ^ (LENGTH('e) - 1) - 1) LENGTH('f) \<bar>q\<bar>"
  shows "(fround q :: ('e::len, 'f::len) float) = inf_of (q < 0)"
  using assms by (simp add: fround_alt inf_of_def)

lemma fround_fin:
  assumes E: "1 < LENGTH('e)"
    and fin: "rcode (2 ^ (LENGTH('e) - 1) - 1) LENGTH('f) \<bar>q\<bar> < (2 ^ LENGTH('e) - 1) * 2 ^ LENGTH('f)"
  shows "is_finite (fround q :: ('e::len, 'f::len) float)"
    and "valof (fround q :: ('e, 'f) float) =
      (if q < 0 then - 1 else 1) * of_int (rmant (2 ^ (LENGTH('e) - 1) - 1) LENGTH('f) \<bar>q\<bar>) *
        pow2 (rexp (2 ^ (LENGTH('e) - 1) - 1) \<bar>q\<bar> - int LENGTH('f))"
proof -
  let ?F = "LENGTH('f)"
  let ?B = "2 ^ (LENGTH('e) - 1) - 1 :: nat"
  let ?a = "\<bar>q\<bar>"
  let ?n = "rcode ?B ?F ?a"
  let ?x = "(q < 0, of_nat (?n div 2 ^ ?F), of_nat (?n mod 2 ^ ?F)) :: ('e, 'f) float"
  have fx: "(fround q :: ('e, 'f) float) = ?x"
    using fin by (simp add: fround_alt Let_def)
  have eb: "emax ?x = 2 * ?B + 1" "1 \<le> ?B"
    using emax_bias [OF E, of ?x] by (simp_all add: bias_def)
  have em: "(2 ^ LENGTH('e) - 1 :: nat) = 2 * ?B + 1"
    using eb(1) by (simp add: emax_def)
  have range: "1 - int ?B \<le> rexp ?B ?a" "rexp ?B ?a \<le> int ?B"
    using rexp_range [OF eb(2), of ?a] by simp_all
  have m0: "0 \<le> rmant ?B ?F ?a" by (rule rmant_nonneg) simp
  define e' where "e' = nat (rexp ?B ?a + int ?B - 1)"
  define mn where "mn = nat (rmant ?B ?F ?a)"
  have e': "int e' = rexp ?B ?a + int ?B - 1" using range by (simp add: e'_def)
  have mn: "int mn = rmant ?B ?F ?a" using m0 by (simp add: mn_def)
  have n: "?n = e' * 2 ^ ?F + mn"
  proof -
    have "int ?n = (rexp ?B ?a + int ?B - 1) * 2 ^ ?F + rmant ?B ?F ?a"
      unfolding rcode_def using range m0 by simp
    also have "\<dots> = int (e' * 2 ^ ?F + mn)" by (simp add: e' mn)
    finally show ?thesis by (simp only: int_int_eq)
  qed
  have d: "?n div 2 ^ ?F < 2 ^ LENGTH('e) - 1"
    using fin by (simp add: less_mult_imp_div_less)
  then have "expo ?x = ?n div 2 ^ ?F" by (intro expo_mk) simp
  with d show "is_finite (fround q :: ('e, 'f) float)"
    unfolding fx by (simp add: is_finite_def emax_def)
  have up: "mn \<le> 2 ^ (?F + 1)"
  proof (cases "rexp ?B ?a < int ?B")
    case True
    have "rmant ?B ?F ?a \<le> 2 ^ (?F + 1)" by (rule rmant_upper [OF _ True]) simp
    then have "int mn \<le> int (2 ^ (?F + 1))" by (simp add: mn)
    then show ?thesis by (simp only: of_nat_le_iff)
  next
    case False
    with range have "rexp ?B ?a = int ?B" by simp
    then have "int e' = 2 * int ?B - 1" by (simp add: e')
    then have "e' = 2 * ?B - 1" by linarith
    with fin n em eb(2) have "(2 * ?B - 1) * 2 ^ ?F + mn < (2 * ?B + 1) * 2 ^ ?F" by simp
    then have "mn < 2 * 2 ^ ?F"
      using eb(2) by (simp add: algebra_simps)
    then show ?thesis by simp
  qed
  have low: "0 < e' \<Longrightarrow> 2 ^ ?F \<le> mn"
  proof -
    assume "0 < e'"
    then have "1 - int ?B < rexp ?B ?a" using e' by linarith
    then have "2 ^ ?F \<le> rmant ?B ?F ?a" by (rule rmant_lower)
    then have "int (2 ^ ?F) \<le> int mn" by (simp add: mn)
    then show ?thesis by (simp only: of_nat_le_iff)
  qed
  have "valof ?x = (if q < 0 then - 1 else 1) * of_nat mn *
       pow2 (int e' + 1 - int ?B - int ?F)"
    by (rule valof_code [OF n fin up low])
  moreover have "int e' + 1 - int ?B - int ?F = rexp ?B ?a - int ?F" by (simp add: e')
  moreover have "(of_nat mn :: real) = of_int (rmant ?B ?F ?a)"
    using mn by (metis of_int_of_nat_eq)
  ultimately show "valof (fround q :: ('e, 'f) float) =
      (if q < 0 then - 1 else 1) * of_int (rmant ?B ?F ?a) * pow2 (rexp ?B ?a - int ?F)"
    unfolding fx by simp
qed

section \<open>The finite range\<close>

text \<open>The largest finite magnitude of the format with bias \<open>b\<close> and \<open>f\<close> fraction bits.\<close>

definition largest :: "nat \<Rightarrow> nat \<Rightarrow> real" where
  "largest b f = (2 ^ (f + 1) - 1) * pow2 (int b - int f)"

lemma largest_less: "largest b f < pow2 (int b + 1)"
proof -
  have "largest b f < 2 ^ (f + 1) * pow2 (int b - int f)"
    unfolding largest_def by (intro mult_strict_right_mono) simp_all
  also have "\<dots> = pow2 (int (f + 1)) * pow2 (int b - int f)"
    unfolding pow2_nat by simp
  also have "\<dots> = pow2 (int b + 1)"
    unfolding pow2_add [symmetric] by (simp add: algebra_simps)
  finally show ?thesis .
qed

lemma valof_abs: "\<bar>valof x\<bar> = of_nat (mant x) * pow2 (int (max 1 (expo x)) - int (bias x) - int (fbits x))"
  by (simp add: valof_def abs_mult less_imp_le [OF pow2_pos])

lemma valof_finite_le:
  assumes E: "1 < LENGTH('e)" and fin: "is_finite (x :: ('e::len, 'f::len) float)"
  shows "\<bar>valof x\<bar> \<le> largest (bias x) (fbits x)"
proof -
  have eb: "emax x = 2 * bias x + 1" "1 \<le> bias x" using emax_bias [OF E, of x] by simp_all
  have "expo x \<le> emax x" by (rule expo_less)
  with fin eb have ex: "expo x \<le> 2 * bias x" by (simp add: is_finite_def)
  have "mant x \<le> 2 ^ fbits x + frac x" by (simp add: mant_def)
  also have "\<dots> < 2 ^ fbits x + 2 ^ fbits x" using frac_less [of x] by simp
  finally have "mant x < 2 ^ (fbits x + 1)" by simp
  then have "mant x \<le> 2 ^ (fbits x + 1) - 1" by simp
  then have "real (mant x) \<le> real (2 ^ (fbits x + 1) - 1)" by (simp only: of_nat_le_iff)
  also have "\<dots> = 2 ^ (fbits x + 1) - 1" by (simp add: of_nat_diff)
  finally have m: "real (mant x) \<le> 2 ^ (fbits x + 1) - 1" .
  have "int (max 1 (expo x)) - int (bias x) - int (fbits x) \<le> int (bias x) - int (fbits x)"
    using ex eb(2) by simp
  then have p: "pow2 (int (max 1 (expo x)) - int (bias x) - int (fbits x))
      \<le> pow2 (int (bias x) - int (fbits x))"
    by (rule pow2_mono)
  have "real (mant x) * pow2 (int (max 1 (expo x)) - int (bias x) - int (fbits x))
      \<le> (2 ^ (fbits x + 1) - 1) * pow2 (int (bias x) - int (fbits x))"
    using m p by (intro mult_mono) (simp_all add: less_imp_le)
  then show ?thesis by (simp add: valof_abs largest_def)
qed

lemma valof_inf:
  assumes E: "1 < LENGTH('e)" and inf: "is_inf (x :: ('e::len, 'f::len) float)"
  shows "\<bar>valof x\<bar> = pow2 (int (bias x) + 1)"
proof -
  have eb: "emax x = 2 * bias x + 1" "1 \<le> bias x" using emax_bias [OF E, of x] by simp_all
  from inf eb have ex: "expo x = 2 * bias x + 1" and fr: "frac x = 0" by (simp_all add: is_inf_def)
  have "\<bar>valof x\<bar> = 2 ^ fbits x * pow2 (int (bias x) + 1 - int (fbits x))"
    by (simp add: valof_abs mant_def ex fr algebra_simps)
  also have "\<dots> = pow2 (int (fbits x)) * pow2 (int (bias x) + 1 - int (fbits x))"
    unfolding pow2_nat by simp
  also have "\<dots> = pow2 (int (bias x) + 1)"
    unfolding pow2_add [symmetric] by (simp add: algebra_simps)
  finally show ?thesis .
qed

lemma code_bound:
  fixes e b m P :: int
  assumes "0 < P" "e < b" "m \<le> 2 * P"
  shows "(e + b - 1) * P + m < (2 * b + 1) * P"
proof -
  have "(e + b - 1) * P \<le> (2 * b - 2) * P"
    using assms by (intro mult_right_mono) simp_all
  then have "(e + b - 1) * P + m \<le> (2 * b - 2) * P + 2 * P"
    using assms(3) by linarith
  also have "\<dots> = 2 * b * P" by (simp add: algebra_simps)
  also have "\<dots> < (2 * b + 1) * P" using assms(1) by (simp add: algebra_simps)
  finally show ?thesis .
qed

lemma code_bound_top:
  fixes b m P :: int
  assumes "0 < P" "m \<le> 2 * P - 1"
  shows "(b + b - 1) * P + m < (2 * b + 1) * P"
proof -
  have "(b + b - 1) * P + m \<le> (b + b - 1) * P + (2 * P - 1)" using assms(2) by simp
  also have "\<dots> = (2 * b + 1) * P - 1" by (simp add: algebra_simps)
  finally show ?thesis by simp
qed

lemma rcode_small:
  assumes E: "1 < LENGTH('e::len)"
    and le: "\<bar>q\<bar> \<le> largest (2 ^ (LENGTH('e) - 1) - 1) LENGTH('f::len)"
  shows "rcode (2 ^ (LENGTH('e) - 1) - 1) LENGTH('f) \<bar>q\<bar> < (2 ^ LENGTH('e) - 1) * 2 ^ LENGTH('f)"
proof -
  let ?F = "LENGTH('f)"
  let ?B = "2 ^ (LENGTH('e) - 1) - 1 :: nat"
  let ?a = "\<bar>q\<bar>"
  have eb: "(2 ^ LENGTH('e) - 1 :: nat) = 2 * ?B + 1" "1 \<le> ?B"
    using emax_bias [OF E, of "plus_zero :: ('e, 'f) float"] by (simp_all add: bias_def emax_def)
  have range: "1 - int ?B \<le> rexp ?B ?a" "rexp ?B ?a \<le> int ?B"
    using rexp_range [OF eb(2), of ?a] by simp_all
  have m0: "0 \<le> rmant ?B ?F ?a" by (rule rmant_nonneg) simp
  have "(rexp ?B ?a + int ?B - 1) * 2 ^ ?F + rmant ?B ?F ?a < (2 * int ?B + 1) * 2 ^ ?F"
  proof (cases "rexp ?B ?a < int ?B")
    case True
    have "rmant ?B ?F ?a \<le> 2 ^ (?F + 1)" by (rule rmant_upper [OF _ True]) simp
    then have "rmant ?B ?F ?a \<le> 2 * 2 ^ ?F" by simp
    then show ?thesis by (intro code_bound [OF _ True]) simp_all
  next
    case False
    with range have e: "rexp ?B ?a = int ?B" by simp
    have "?a * pow2 (int ?F - int ?B) \<le> largest ?B ?F * pow2 (int ?F - int ?B)"
      using le by (intro mult_right_mono) (simp_all add: less_imp_le)
    also have "\<dots> = (2 ^ (?F + 1) - 1) * (pow2 (int ?B - int ?F) * pow2 (int ?F - int ?B))"
      by (simp add: largest_def)
    also have "\<dots> = 2 ^ (?F + 1) - 1"
      unfolding pow2_add [symmetric] by simp
    also have "\<dots> = of_int (2 ^ (?F + 1) - 1)" by simp
    finally have "rmant ?B ?F ?a \<le> 2 ^ (?F + 1) - 1"
      unfolding rmant_def e by (rule rhe_le)
    then have "rmant ?B ?F ?a \<le> 2 * 2 ^ ?F - 1" by simp
    then show ?thesis unfolding e by (intro code_bound_top) simp_all
  qed
  moreover have nonneg: "0 \<le> (rexp ?B ?a + int ?B - 1) * 2 ^ ?F + rmant ?B ?F ?a"
    using range m0 by simp
  moreover have "int ((2 * ?B + 1) * 2 ^ ?F) = (2 * int ?B + 1) * 2 ^ ?F"
    by (simp only: of_nat_mult of_nat_add of_nat_power of_nat_numeral of_nat_1)
  ultimately have "nat ((rexp ?B ?a + int ?B - 1) * 2 ^ ?F + rmant ?B ?F ?a) < (2 * ?B + 1) * 2 ^ ?F"
    by (simp only: nat_less_iff)
  then show ?thesis unfolding eb(1) rcode_def .
qed

lemma fround_finite:
  assumes "1 < LENGTH('e::len)" "\<bar>q\<bar> \<le> largest (2 ^ (LENGTH('e) - 1) - 1) LENGTH('f::len)"
  shows "is_finite (fround q :: ('e::len, 'f::len) float)"
  by (rule fround_fin(1) [OF assms(1) rcode_small [OF assms]])

section \<open>The rounding error\<close>

lemma largest_ge: "pow2 (int b) \<le> largest b f"
proof -
  have "(1::real) \<le> 2 ^ f" by (rule one_le_power) simp
  then have "(2::real) ^ f \<le> 2 * 2 ^ f - 1" by linarith
  then have "(2::real) ^ f \<le> 2 ^ (f + 1) - 1" by (simp only: power_add power_one_right mult.commute)
  then have "2 ^ f * pow2 (int b - int f) \<le> (2 ^ (f + 1) - 1) * pow2 (int b - int f)"
    by (rule mult_right_mono) (rule less_imp_le [OF pow2_pos])
  moreover have "2 ^ f * pow2 (int b - int f) = pow2 (int f) * pow2 (int b - int f)"
    by (simp only: pow2_nat)
  moreover have "int f + (int b - int f) = int b" by simp
  then have "pow2 (int f) * pow2 (int b - int f) = pow2 (int b)"
    by (simp only: pow2_add [symmetric])
  ultimately show ?thesis unfolding largest_def by linarith
qed

lemma scale_error:
  fixes m a s p :: real
  assumes "0 < p" "s * p = 1" "\<bar>m - a * s\<bar> \<le> 1 / 2"
  shows "\<bar>m * p - a\<bar> \<le> p / 2"
proof -
  have "m * p - a = (m - a * s) * p"
    using assms(2) by (simp add: algebra_simps)
  then have "\<bar>m * p - a\<bar> = \<bar>m - a * s\<bar> * p"
    using assms(1) by (simp add: abs_mult)
  also have "\<dots> \<le> 1 / 2 * p"
    using assms(1,3) by (intro mult_right_mono) simp_all
  finally show ?thesis by simp
qed

lemma fround_error:
  assumes E: "1 < LENGTH('e::len)"
    and le: "\<bar>q\<bar> \<le> largest (2 ^ (LENGTH('e) - 1) - 1) LENGTH('f::len)"
  shows "\<bar>valof (fround q :: ('e, 'f) float) - q\<bar>
      \<le> pow2 (rexp (2 ^ (LENGTH('e) - 1) - 1) \<bar>q\<bar> - int LENGTH('f)) / 2"
proof -
  let ?F = "LENGTH('f)"
  let ?B = "2 ^ (LENGTH('e) - 1) - 1 :: nat"
  let ?a = "\<bar>q\<bar>"
  let ?p = "pow2 (rexp ?B ?a - int ?F)"
  let ?m = "rmant ?B ?F ?a"
  have v: "valof (fround q :: ('e, 'f) float) = (if q < 0 then - 1 else 1) * of_int ?m * ?p"
    by (rule fround_fin(2) [OF E rcode_small [OF E le]])
  have inv: "pow2 (int ?F - rexp ?B ?a) * ?p = 1"
    unfolding pow2_add [symmetric] by simp
  have "\<bar>of_int ?m - ?a * pow2 (int ?F - rexp ?B ?a)\<bar> \<le> 1 / 2"
    unfolding rmant_def by (rule rhe_error)
  then have m: "\<bar>of_int ?m * ?p - ?a\<bar> \<le> ?p / 2"
    by (rule scale_error [OF pow2_pos inv])
  show ?thesis
  proof (cases "q < 0")
    case True
    then have "valof (fround q :: ('e, 'f) float) - q = - (of_int ?m * ?p - ?a)"
      unfolding v by simp
    then show ?thesis using m by (simp only: abs_minus_cancel)
  next
    case False
    then have "valof (fround q :: ('e, 'f) float) - q = of_int ?m * ?p - ?a"
      unfolding v by simp
    then show ?thesis using m by simp
  qed
qed

lemma fround_rel_error:
  assumes E: "1 < LENGTH('e::len)"
    and le: "\<bar>q\<bar> \<le> largest (2 ^ (LENGTH('e) - 1) - 1) LENGTH('f::len)"
    and ge: "pow2 (1 - int (2 ^ (LENGTH('e) - 1) - 1)) \<le> \<bar>q\<bar>"
  shows "\<bar>valof (fround q :: ('e, 'f) float) - q\<bar> \<le> \<bar>q\<bar> * pow2 (- int LENGTH('f) - 1)"
proof -
  let ?F = "LENGTH('f)"
  let ?B = "2 ^ (LENGTH('e) - 1) - 1 :: nat"
  let ?a = "\<bar>q\<bar>"
  have eb: "1 \<le> ?B"
    using emax_bias [OF E, of "plus_zero :: ('e, 'f) float"] by (simp add: bias_def)
  have range: "1 - int ?B \<le> rexp ?B ?a" using rexp_range [OF eb, of ?a] by simp
  have low: "pow2 (rexp ?B ?a) \<le> ?a"
  proof (cases "1 - int ?B < rexp ?B ?a")
    case True
    then show ?thesis by (rule rexp_lower)
  next
    case False
    with range have "rexp ?B ?a = 1 - int ?B" by simp
    with ge show ?thesis by simp
  qed
  have "pow2 (rexp ?B ?a - int ?F) / 2 = pow2 (rexp ?B ?a) * pow2 (- int ?F - 1)"
  proof -
    have "pow2 (rexp ?B ?a - int ?F) = pow2 (rexp ?B ?a) * (pow2 (- int ?F - 1) * pow2 1)"
      unfolding pow2_add [symmetric] by simp
    then show ?thesis by (simp add: pow2_def)
  qed
  also have "\<dots> \<le> ?a * pow2 (- int ?F - 1)"
    using low by (intro mult_right_mono) (simp_all add: less_imp_le)
  finally show ?thesis
    using fround_error [OF E le] by linarith
qed

section \<open>Rounding to \<^verbatim>\<open>float64\<close> in the range of the percentages\<close>

lemma f64_len [simp]: "(2::nat) ^ (LENGTH(11) - 1) - 1 = 1023" "LENGTH(52) = 52"
  by simp_all

lemma f64_fround_pos:
  assumes lo: "1 / 2 ^ 60 \<le> q" and hi: "q \<le> 2 ^ 60"
  shows "is_finite (fround q :: float64)"
    and "\<bar>valof (fround q :: float64) - q\<bar> \<le> q / 2 ^ 53"
    and "0 < valof (fround q :: float64)"
    and "\<not> is_zero (fround q :: float64)"
    and "sign (fround q :: float64) = False"
proof -
  have q0: "0 < q" using lo by (rule less_le_trans [rotated]) simp
  have "(2::real) ^ 60 = pow2 (int 60)" by (simp only: pow2_nat)
  also have "\<dots> \<le> pow2 (int 1023)" by (rule pow2_mono) simp
  also have "\<dots> \<le> largest 1023 52" by (rule largest_ge)
  finally have le: "\<bar>q\<bar> \<le> largest (2 ^ (LENGTH(11) - 1) - 1) LENGTH(52)"
    using hi q0 by simp
  have "pow2 (1 - int 1023) \<le> pow2 (- 60)" by (rule pow2_mono) simp
  also have "\<dots> = 1 / 2 ^ 60" by (simp add: pow2_def)
  finally have ge: "pow2 (1 - int (2 ^ (LENGTH(11) - 1) - 1)) \<le> \<bar>q\<bar>"
    using lo q0 by simp
  have E: "1 < LENGTH(11)" by simp
  show fin: "is_finite (fround q :: float64)"
    by (rule fround_finite [OF E le])
  have p: "pow2 (- int LENGTH(52) - 1) = 1 / 2 ^ 53" by (simp add: pow2_def)
  have "\<bar>valof (fround q :: float64) - q\<bar> \<le> \<bar>q\<bar> * pow2 (- int LENGTH(52) - 1)"
    by (rule fround_rel_error [OF E le ge])
  then have "\<bar>valof (fround q :: float64) - q\<bar> \<le> \<bar>q\<bar> * (1 / 2 ^ 53)"
    unfolding p .
  then show err: "\<bar>valof (fround q :: float64) - q\<bar> \<le> q / 2 ^ 53"
    using q0 by simp
  have "q / 2 ^ 53 < q" using q0 by simp
  with err show pos: "0 < valof (fround q :: float64)" by linarith
  then show "\<not> is_zero (fround q :: float64)" using is_zero_valof by fastforce
  show "sign (fround q :: float64) = False" using q0 by simp
qed

lemma f64_of_int_exact:
  assumes "0 < k" "k < 2 ^ 53"
  shows "valof (float64_of_int k) = of_int k"
proof -
  let ?a = "\<bar>real_of_int k\<bar>"
  have a1: "1 \<le> ?a" using assms(1) by simp
  have alt: "?a < 2 ^ 53"
  proof -
    have "real_of_int k < real_of_int (2 ^ 53)" using assms(2) by (simp only: of_int_less_iff)
    then show ?thesis using assms(1) by simp
  qed
  have E: "1 < LENGTH(11)" by simp
  have "(2::real) ^ 53 = pow2 (int 53)" by (simp only: pow2_nat)
  also have "\<dots> \<le> pow2 (int 1023)" by (rule pow2_mono) simp
  also have "\<dots> \<le> largest 1023 52" by (rule largest_ge)
  finally have le: "\<bar>real_of_int k\<bar> \<le> largest (2 ^ (LENGTH(11) - 1) - 1) LENGTH(52)"
    using alt by simp
  define e where "e = rexp 1023 ?a"
  have e0: "0 \<le> e" using a1 by (simp add: e_def rexp_def)
  have "pow2 e \<le> ?a" unfolding e_def using e0 [unfolded e_def] by (intro rexp_lower) simp
  then have "pow2 e < pow2 (int 53)" using alt by (simp only: pow2_nat)
  then have e53: "e < 53"
    using pow2_mono [of 53 e] by (cases "e < 53") simp_all
  define j where "j = nat (52 - e)"
  have j: "int 52 - e = int j" using e53 by (simp add: j_def)
  have "?a * pow2 (int 52 - e) = real_of_int (k * 2 ^ j)"
    unfolding j pow2_nat using assms(1) by simp
  then have m: "rmant 1023 52 ?a = k * 2 ^ j"
    unfolding rmant_def e_def [symmetric] by (simp only: rhe_of_int)
  have inv: "2 ^ j * pow2 (e - int 52) = 1"
  proof -
    have "pow2 (int j) * pow2 (e - int 52) = pow2 (int j + (e - int 52))"
      by (simp only: pow2_add)
    also have "int j + (e - int 52) = 0" using j by simp
    finally show ?thesis by (simp only: pow2_nat pow2_0)
  qed
  have "valof (fround (real_of_int k) :: float64) =
      (if real_of_int k < 0 then - 1 else 1) * of_int (rmant 1023 52 ?a) * pow2 (rexp 1023 ?a - int 52)"
    using fround_fin(2) [OF E rcode_small [OF E le]] by simp
  also have "\<dots> = real_of_int k * (2 ^ j * pow2 (e - int 52))"
    unfolding m e_def [symmetric] using assms(1) by simp
  finally show ?thesis unfolding inv float64_of_int_def by simp
qed

lemma f64_of_int_pos:
  assumes "0 < k" "k < 2 ^ 53"
  shows "is_finite (float64_of_int k)" "\<not> is_zero (float64_of_int k)"
    "sign (float64_of_int k) = False"
proof -
  have "real_of_int 1 \<le> real_of_int k" using assms(1) by simp
  then have lo: "1 / 2 ^ 60 \<le> real_of_int k"
    by (rule order_trans [rotated]) simp
  have "k \<le> 2 ^ 60" using assms(2) by simp
  then have "real_of_int k \<le> real_of_int (2 ^ 60)" by (simp only: of_int_le_iff)
  then have hi: "real_of_int k \<le> 2 ^ 60" by simp
  show "is_finite (float64_of_int k)" "\<not> is_zero (float64_of_int k)"
    "sign (float64_of_int k) = False"
    unfolding float64_of_int_def
    by (rule f64_fround_pos [OF lo hi])+
qed

lemma f64_of_0: "float64_of_int 0 = plus_zero"
  unfolding float64_of_int_def fround_def Let_def plus_zero_def
  by (simp add: rhe_def)

section \<open>The reported percentages\<close>

lemma f64_pos_ops:
  assumes "is_finite (x :: float64)" "is_finite (y :: float64)" "0 < valof x" "0 < valof y"
  shows "fmul x y = fround (valof x * valof y)" "fdiv x y = fround (valof x / valof y)"
proof -
  have "\<not> is_zero x" "\<not> is_zero y" using assms(3,4) is_zero_valof by fastforce+
  then show "fmul x y = fround (valof x * valof y)" "fdiv x y = fround (valof x / valof y)"
    using assms by (simp_all add: fmul_def fdiv_def is_finite_iff)
qed

lemma f64_hundred:
  "is_finite (float64_of_int 100)" "valof (float64_of_int 100) = 100"
  "\<not> is_zero (float64_of_int 100)" "sign (float64_of_int 100) = False"
  using f64_of_int_pos [of 100] f64_of_int_exact [of 100] by simp_all

lemma f64_zero_by:
  assumes "is_finite (y :: float64)" "\<not> is_zero y" "sign y = False"
  shows "fdiv plus_zero y = plus_zero" "fmul plus_zero y = plus_zero"
proof -
  have z: "is_zero (plus_zero :: float64)" "\<not> is_nan (plus_zero :: float64)"
    "\<not> is_inf (plus_zero :: float64)" "valof (plus_zero :: float64) = 0"
    "sign (plus_zero :: float64) = False"
    using zero_of_simps [of False, where 'e=11 and 'f=52] by (simp_all add: zero_of_def plus_zero_def)
  show "fdiv plus_zero y = plus_zero" "fmul plus_zero y = plus_zero"
    using assms z by (simp_all add: fdiv_def fmul_def is_finite_iff zero_of_def plus_zero_def)
qed

lemma np_round_0: "np_round plus_zero 2 = plus_zero"
proof -
  have r: "frint (plus_zero :: float64) = plus_zero"
    using zero_of_simps [of False, where 'e=11 and 'f=52]
    by (simp add: frint_def zero_of_def plus_zero_def)
  show ?thesis
    unfolding np_round_def
    by (simp add: f64_zero_by [OF f64_hundred(1,3,4)] r)
qed

lemma percent_zero:
  assumes "0 < N" "N < 2 ^ 53"
  shows "percent 0 N = plus_zero"
proof -
  have N: "0 < int N" "int N < 2 ^ 53" using assms by simp_all
  have d: "fdiv plus_zero (float64_of_int (int N)) = plus_zero"
    by (rule f64_zero_by(1) [OF f64_of_int_pos [OF N]])
  have m: "fmul plus_zero (float64_of_int 100) = plus_zero"
    by (rule f64_zero_by(2) [OF f64_hundred(1,3,4)])
  show ?thesis
    unfolding percent_def by (simp add: f64_of_0 d m np_round_0)
qed

text \<open>
  For a positive count the chain of \<^verbatim>\<open>float64\<close> operations, each with its rounding error:
  the quotient, twice the product with 100, \<^verbatim>\<open>rint\<close>, and the quotient by 100.
\<close>

lemma percent_pos:
  assumes c: "0 < c" "c \<le> N" "N < 2 ^ 53"
  shows "\<exists>k :: int. 0 \<le> k \<and>
    \<bar>real_of_int k - 10 ^ 4 * real c / real N\<bar> \<le> 1 / 2 + 40100 / 2 ^ 53 \<and>
    is_finite (percent c N) \<and>
    \<bar>valof (percent c N) - real_of_int k / 100\<bar> \<le> real_of_int k / 100 / 2 ^ 53"
proof -
  let ?h = "float64_of_int 100"
  define q0 where "q0 = real c / real N"
  have ci: "0 < int c" "int c < 2 ^ 53" and Ni: "0 < int N" "int N < 2 ^ 53"
    using c by simp_all
  have N0: "0 < real N" using c by simp
  have "real N < real (2 ^ 53)" using c(3) by (simp only: of_nat_less_iff)
  then have N53: "real N < 2 ^ 53" by simp
  have "1 \<le> real c" using c(1) by simp
  then have "1 / real N \<le> q0" unfolding q0_def using N0 by (simp add: divide_right_mono)
  moreover have "1 / 2 ^ 53 < 1 / real N" using N0 N53 by (simp add: field_simps)
  ultimately have q_lo: "1 / 2 ^ 53 \<le> q0" by linarith
  have "real c \<le> real N" using c(2) by simp
  then have q_hi: "q0 \<le> 1" unfolding q0_def using N0 by simp
  \<comment> \<open>the quotient\<close>
  define x0 where "x0 = fdiv (float64_of_int (int c)) (float64_of_int (int N))"
  have x0: "x0 = fround q0"
    unfolding x0_def q0_def
    using f64_pos_ops(2) [OF f64_of_int_pos(1) [OF ci] f64_of_int_pos(1) [OF Ni]] c(1) N0
    by (simp add: f64_of_int_exact [OF ci] f64_of_int_exact [OF Ni])
  have r0: "1 / 2 ^ 60 \<le> q0" "q0 \<le> 2 ^ 60" using q_lo q_hi by simp_all
  note f0 = f64_fround_pos [OF r0, folded x0]
  have e0: "\<bar>valof x0 - q0\<bar> \<le> 1 / 2 ^ 53" using f0(2) q_hi unfolding abs_diff_le_iff by (simp; linarith)
  have v0: "q0 / 2 \<le> valof x0" "valof x0 \<le> 2" using f0(2) q_hi q_lo unfolding abs_diff_le_iff by (simp; linarith)+
  \<comment> \<open>times 100\<close>
  define x1 where "x1 = fmul x0 ?h"
  have x1: "x1 = fround (valof x0 * 100)"
    unfolding x1_def using f64_pos_ops(1) [OF f0(1) f64_hundred(1)] f0(3)
    by (simp add: f64_hundred(2))
  have r1: "1 / 2 ^ 60 \<le> valof x0 * 100" "valof x0 * 100 \<le> 2 ^ 60" using v0 q_lo unfolding abs_diff_le_iff by (simp; linarith)+
  note f1 = f64_fround_pos [OF r1, folded x1]
  have e1: "\<bar>valof x1 - valof x0 * 100\<bar> \<le> 200 / 2 ^ 53" using f1(2) v0 unfolding abs_diff_le_iff by (simp; linarith)
  have v1: "valof x0 * 50 \<le> valof x1" "valof x1 \<le> 101"
    using f1(2) v0 e0 q_hi q_lo unfolding abs_diff_le_iff by (simp; linarith)+
  \<comment> \<open>times 100 again, inside the rounding to 2 decimals\<close>
  define x2 where "x2 = fmul x1 ?h"
  have x2: "x2 = fround (valof x1 * 100)"
    unfolding x2_def using f64_pos_ops(1) [OF f1(1) f64_hundred(1)] f1(3)
    by (simp add: f64_hundred(2))
  have r2: "1 / 2 ^ 60 \<le> valof x1 * 100" "valof x1 * 100 \<le> 2 ^ 60"
    using v1 v0 q_lo unfolding abs_diff_le_iff by (simp; linarith)+
  note f2 = f64_fround_pos [OF r2, folded x2]
  have e2: "\<bar>valof x2 - valof x1 * 100\<bar> \<le> 10100 / 2 ^ 53" using f2(2) v1 unfolding abs_diff_le_iff by (simp; linarith)
  have tot: "\<bar>valof x2 - 10 ^ 4 * q0\<bar> \<le> 40100 / 2 ^ 53" using e0 e1 e2 unfolding abs_diff_le_iff by (simp; linarith)
  \<comment> \<open>the nearest integer\<close>
  define k where "k = rhe (valof x2)"
  have k0: "0 \<le> k" unfolding k_def using f2(3) by (intro rhe_nonneg) simp
  have ke: "\<bar>real_of_int k - valof x2\<bar> \<le> 1 / 2" unfolding k_def by (rule rhe_error)
  have kq0: "\<bar>real_of_int k - 10 ^ 4 * q0\<bar> \<le> 1 / 2 + 40100 / 2 ^ 53"
    using ke tot unfolding abs_diff_le_iff by (simp; linarith)
  then have kq: "\<bar>real_of_int k - 10 ^ 4 * real c / real N\<bar> \<le> 1 / 2 + 40100 / 2 ^ 53"
    unfolding q0_def by simp
  have k10: "real_of_int k \<le> 10002" using kq0 q_hi unfolding abs_diff_le_iff by (simp; linarith)
  then have "real_of_int k < real_of_int (2 ^ 53)" by simp
  then have k53: "k < 2 ^ 53" by (simp only: of_int_less_iff)
  have p: "percent c N = fdiv (frint x2) ?h"
    unfolding percent_def np_round_def x2_def x1_def x0_def by simp
  show ?thesis
  proof (cases "k = 0")
    case True
    then have "frint x2 = plus_zero"
      using f2(1,5) by (simp add: frint_def k_def zero_of_def plus_zero_def)
    then have "percent c N = plus_zero"
      unfolding p using f64_zero_by(1) [OF f64_hundred(1,3,4)] by simp
    then show ?thesis using True kq by (intro exI [of _ k]) simp
  next
    case False
    with k0 have kp: "0 < k" by simp
    have y: "frint x2 = float64_of_int k"
      using f2(1) False by (simp add: frint_def k_def float64_of_int_def)
    have pk: "percent c N = fround (real_of_int k / 100)"
      unfolding p y
      using f64_pos_ops(2) [OF f64_of_int_pos(1) [OF kp k53] f64_hundred(1)] kp
      by (simp add: f64_of_int_exact [OF kp k53] f64_hundred(2))
    have "1 \<le> real_of_int k" using kp by simp
    then have rk: "1 / 2 ^ 60 \<le> real_of_int k / 100" "real_of_int k / 100 \<le> 2 ^ 60"
      using k10 unfolding abs_diff_le_iff by (simp; linarith)+
    note fk = f64_fround_pos [OF rk, folded pk]
    show ?thesis
      using k0 kq fk(1,2) by (intro exI [of _ k]) simp
  qed
qed

lemma percent_bound:
  assumes "0 < N" "c \<le> N" "N < 2 ^ 53"
  shows "\<exists>k :: int. 0 \<le> k \<and>
    \<bar>real_of_int k - 10 ^ 4 * real c / real N\<bar> \<le> 1 / 2 + 40100 / 2 ^ 53 \<and>
    is_finite (percent c N) \<and>
    \<bar>valof (percent c N) - real_of_int k / 100\<bar> \<le> real_of_int k / 100 / 2 ^ 53"
proof (cases "c = 0")
  case True
  have "is_finite (plus_zero :: float64)" "valof (plus_zero :: float64) = 0" by simp_all
  then show ?thesis
    unfolding True percent_zero [OF assms(1,3)] by (intro exI [of _ 0]) simp
next
  case False
  then show ?thesis using percent_pos [of c N] assms by simp
qed

section \<open>The four counts\<close>

text \<open>The four tests of \<^verbatim>\<open>calculate_statistics\<close> on one pixel, in the order of the source.\<close>

definition band_tests :: "float32 \<Rightarrow> bool list" where
  "band_tests v = [fgt v t06, fgt v t04 \<and> fle v t06, fgt v t02 \<and> fle v t04, fle v t02]"

lemma band_tests_one:
  assumes "is_finite v"
  shows "length (filter id (band_tests v)) = 1"
proof -
  from assms have "\<not> is_nan v" by (simp add: is_finite_iff)
  then show ?thesis
    by (simp add: band_tests_def fgt_def flt_def fle_def valof_t02 valof_t04 valof_t06)
qed

lemma count_partition:
  assumes "\<forall>x \<in> set xs. length (filter id [P1 x, P2 x, P3 x, P4 x]) = 1"
  shows "length (filter P1 xs) + length (filter P2 xs) + length (filter P3 xs) + length (filter P4 xs)
     = length xs"
  using assms by (induction xs) (auto split: if_splits)

lemma counts_sum:
  "healthy (valid_pixels ndvi) + moderate (valid_pixels ndvi) + stressed (valid_pixels ndvi)
     + bare (valid_pixels ndvi) = length (filter is_finite (data ndvi))"
proof -
  have "\<forall>x \<in> set (filter is_finite (data ndvi)).
      length (filter id [fgt x t06, fgt x t04 \<and> fle x t06, fgt x t02 \<and> fle x t04, fle x t02]) = 1"
    using band_tests_one by (simp add: band_tests_def)
  then show ?thesis
    unfolding healthy_def moderate_def stressed_def bare_def np_sum_map np_sum_and valid_pixels_data
    by (rule count_partition)
qed

lemma four_sum:
  fixes k1 k2 k3 k4 :: int and p1 p2 p3 p4 t1 t2 t3 t4 :: real
  assumes t: "t1 + t2 + t3 + t4 = 10 ^ 4"
    and k: "0 \<le> k1" "0 \<le> k2" "0 \<le> k3" "0 \<le> k4"
    and kt: "\<bar>real_of_int k1 - t1\<bar> \<le> 1 / 2 + 40100 / 2 ^ 53"
      "\<bar>real_of_int k2 - t2\<bar> \<le> 1 / 2 + 40100 / 2 ^ 53"
      "\<bar>real_of_int k3 - t3\<bar> \<le> 1 / 2 + 40100 / 2 ^ 53"
      "\<bar>real_of_int k4 - t4\<bar> \<le> 1 / 2 + 40100 / 2 ^ 53"
    and pk: "\<bar>p1 - real_of_int k1 / 100\<bar> \<le> real_of_int k1 / 100 / 2 ^ 53"
      "\<bar>p2 - real_of_int k2 / 100\<bar> \<le> real_of_int k2 / 100 / 2 ^ 53"
      "\<bar>p3 - real_of_int k3 / 100\<bar> \<le> real_of_int k3 / 100 / 2 ^ 53"
      "\<bar>p4 - real_of_int k4 / 100\<bar> \<le> real_of_int k4 / 100 / 2 ^ 53"
  shows "\<bar>k1 + k2 + k3 + k4 - 10 ^ 4\<bar> \<le> 2"
    and "\<bar>p1 + p2 + p3 + p4 - 100\<bar> \<le> 2 / 100 + 101 / 2 ^ 53"
proof -
  define K where "K = k1 + k2 + k3 + k4"
  have Kr: "real_of_int K = real_of_int k1 + real_of_int k2 + real_of_int k3 + real_of_int k4"
    by (simp add: K_def)
  have "\<bar>real_of_int K - 10 ^ 4\<bar> < 3"
    using kt t unfolding Kr abs_diff_le_iff abs_diff_less_iff by (simp; linarith)
  then have "real_of_int (10 ^ 4 - 3) < real_of_int K" "real_of_int K < real_of_int (10 ^ 4 + 3)"
    unfolding abs_diff_less_iff by simp_all
  then have "10 ^ 4 - 3 < K" "K < 10 ^ 4 + 3"
    by (simp_all only: of_int_less_iff)
  then have K2: "\<bar>K - 10 ^ 4\<bar> \<le> 2" by simp
  then show "\<bar>k1 + k2 + k3 + k4 - 10 ^ 4\<bar> \<le> 2" by (simp add: K_def)
  from K2 have "real_of_int \<bar>K - 10 ^ 4\<bar> \<le> real_of_int 2" by (simp only: of_int_le_iff)
  then have Kb: "\<bar>real_of_int K - 10 ^ 4\<bar> \<le> 2" by simp
  show "\<bar>p1 + p2 + p3 + p4 - 100\<bar> \<le> 2 / 100 + 101 / 2 ^ 53"
    using pk Kb k unfolding Kr abs_diff_le_iff by (simp; linarith)
qed

section \<open>One pixel of the transform\<close>

lemma f32_params [simp]:
  "bias (x :: float32) = 127" "fbits (x :: float32) = 23" "emax (x :: float32) = 255"
  by (simp_all add: bias_def fbits_def emax_def)

lemma f64_params [simp]:
  "bias (x :: float64) = 1023" "fbits (x :: float64) = 52" "emax (x :: float64) = 2047"
  by (simp_all add: bias_def fbits_def emax_def)

lemma f32_inf_valof: "is_inf (x :: float32) \<Longrightarrow> \<bar>valof x\<bar> = 2 ^ 128"
  using valof_inf [of x] by (simp add: pow2_def)

lemma f32_finite_valof: "is_finite (x :: float32) \<Longrightarrow> \<bar>valof x\<bar> \<le> largest 127 23"
  using valof_finite_le [of x] by simp

lemma f32_fround_finite: "\<bar>q\<bar> \<le> largest 127 23 \<Longrightarrow> is_finite (fround q :: float32)"
  using fround_finite [where 'e=8 and 'f=23, of q] by simp

lemma fadd_finite_not_nan:
  "is_finite a \<Longrightarrow> is_finite b \<Longrightarrow> \<not> is_nan (fadd a b)"
  by (simp add: fadd_def is_finite_iff)

lemma fadd_finite_inf:
  assumes "is_finite (a :: float32)" "is_finite b" "is_inf (fadd a b)"
  shows "largest 127 23 < \<bar>valof a + valof b\<bar>"
proof (rule ccontr)
  assume "\<not> largest 127 23 < \<bar>valof a + valof b\<bar>"
  then have "is_finite (fround (valof a + valof b) :: float32)"
    by (intro f32_fround_finite) simp
  with assms show False
    by (auto simp: fadd_def is_finite_iff split: if_splits)
qed

lemma fdiv_nan_iff:
  "is_nan (fdiv a b) \<longleftrightarrow>
     is_nan a \<or> is_nan b \<or> (is_inf a \<and> is_inf b) \<or> (is_zero a \<and> is_zero b)"
  by (simp add: fdiv_def)

lemma clip1_range:
  assumes "\<not> is_nan (x :: float32)"
  shows "is_finite (clip1 clip_lo clip_hi x) \<and> - 1 \<le> valof (clip1 clip_lo clip_hi x)
     \<and> valof (clip1 clip_lo clip_hi x) \<le> 1"
proof -
  have inf: "is_inf x \<Longrightarrow> \<not> (- 1 < valof x \<and> valof x < 1)"
    using f32_inf_valof [of x] by auto
  show ?thesis
    using assms inf consts_finite [unfolded is_finite_iff]
    by (auto simp: clip1_def Let_def fgt_def flt_def valof_clip_lo valof_clip_hi is_finite_iff)
qed

lemma ndvi_pixel_range:
  assumes n: "is_finite n" and r: "is_finite r"
  shows "is_finite (ndvi_pixel n r) \<and> - 1 \<le> valof (ndvi_pixel n r) \<and> valof (ndvi_pixel n r) \<le> 1"
proof (cases "fgt (fabs (fadd n r)) eps32")
  case False
  then show ?thesis
    using clip1_range [of plus_zero] by (simp add: ndvi_pixel_def)
next
  case True
  let ?num = "fsub n r" and ?den = "fadd n r"
  have den_nn: "\<not> is_nan ?den" using n r by (rule fadd_finite_not_nan)
  have num_nn: "\<not> is_nan ?num" unfolding fsub_def using n r by (intro fadd_finite_not_nan) simp_all
  from True have "valof eps32 < \<bar>valof ?den\<bar>"
    by (simp add: fgt_def flt_def valof_fabs)
  then have "valof ?den \<noteq> 0" by (simp add: valof_eps32)
  then have den_nz: "\<not> is_zero ?den" using is_zero_valof by blast
  have not_both: "\<not> (is_inf ?num \<and> is_inf ?den)"
  proof
    assume both: "is_inf ?num \<and> is_inf ?den"
    have "largest 127 23 < \<bar>valof n + valof (fneg r)\<bar>"
      using both n r unfolding fsub_def by (intro fadd_finite_inf) simp_all
    then have a: "largest 127 23 < \<bar>valof n - valof r\<bar>" by (simp add: valof_fneg)
    have b: "largest 127 23 < \<bar>valof n + valof r\<bar>"
      using both n r by (intro fadd_finite_inf) simp_all
    from f32_finite_valof [OF n] f32_finite_valof [OF r] a b show False by linarith
  qed
  have "\<not> is_nan (fdiv ?num ?den)"
    using den_nn num_nn den_nz not_both by (simp add: fdiv_nan_iff)
  then show ?thesis
    using True clip1_range [of "fdiv ?num ?den"] by (simp add: ndvi_pixel_def)
qed

section \<open>The threshold of the mask\<close>

text \<open>
  The \<^verbatim>\<open>float32\<close> that stands for \<^verbatim>\<open>1e-6\<close> lies just below \<open>10\<^sup>-\<^sup>6\<close>, and no
  \<^verbatim>\<open>float32\<close> lies between the two: on \<^verbatim>\<open>float32\<close> values the test of the program and
  the test against the real number \<open>10\<^sup>-\<^sup>6\<close> agree.
\<close>

lemma f32_grid:
  assumes "2 ^ 23 / 2 ^ 43 \<le> \<bar>valof (x :: float32)\<bar>"
  shows "\<exists>k :: nat. \<bar>valof x\<bar> = real k / 2 ^ 43"
proof -
  have m: "real (mant x) < 2 ^ 24"
  proof -
    have "mant x \<le> 2 ^ 23 + frac x" by (simp add: mant_def)
    also have "\<dots> < 2 ^ 23 + 2 ^ 23" using frac_less [of x] by simp
    finally have "mant x < 2 ^ 24" by simp
    then have "real (mant x) < real (2 ^ 24)" by (simp only: of_nat_less_iff)
    then show ?thesis by simp
  qed
  have ex: "107 \<le> max 1 (expo x)"
  proof (rule ccontr)
    assume "\<not> 107 \<le> max 1 (expo x)"
    then have "int (max 1 (expo x)) - 127 - 23 \<le> - 44" by simp
    then have "pow2 (int (max 1 (expo x)) - 127 - 23) \<le> pow2 (- 44)" by (rule pow2_mono)
    then have "real (mant x) * pow2 (int (max 1 (expo x)) - 127 - 23) \<le> real (mant x) * pow2 (- 44)"
      by (intro mult_left_mono) simp_all
    also have "\<dots> < 2 ^ 24 * pow2 (- 44)"
      using m by (intro mult_strict_right_mono) simp_all
    finally have "real (mant x) * pow2 (int (max 1 (expo x)) - 127 - 23) < 2 ^ 24 * pow2 (- 44)" .
    moreover have "real (mant x) * pow2 (int (max 1 (expo x)) - 127 - 23) = \<bar>valof x\<bar>"
      by (simp add: valof_abs)
    ultimately have "\<bar>valof x\<bar> < 2 ^ 24 * pow2 (- 44)" by simp
    with assms show False by (simp add: pow2_def)
  qed
  define j where "j = max 1 (expo x) - 107"
  have "int (max 1 (expo x)) - int (bias x) - int (fbits x) = int j + (- 43)"
    using ex by (simp add: j_def)
  then have "pow2 (int (max 1 (expo x)) - int (bias x) - int (fbits x)) = 2 ^ j * pow2 (- 43)"
    by (simp only: pow2_add pow2_nat)
  then have "\<bar>valof x\<bar> = real (mant x) * (2 ^ j * pow2 (- 43))"
    by (simp only: valof_abs)
  also have "\<dots> = real (mant x * 2 ^ j) / 2 ^ 43" by (simp add: pow2_def)
  finally show ?thesis by blast
qed

lemma eps32_gap:
  "valof eps32 < \<bar>valof (x :: float32)\<bar> \<longleftrightarrow> 1 / 10 ^ 6 < \<bar>valof x\<bar>"
proof
  assume "1 / 10 ^ 6 < \<bar>valof x\<bar>"
  then show "valof eps32 < \<bar>valof x\<bar>" by (simp add: valof_eps32)
next
  assume gt: "valof eps32 < \<bar>valof x\<bar>"
  then have "2 ^ 23 / 2 ^ 43 \<le> \<bar>valof x\<bar>" by (simp add: valof_eps32)
  then obtain k :: nat where k: "\<bar>valof x\<bar> = real k / 2 ^ 43" using f32_grid by blast
  from gt have "real 8796093 < real k" unfolding k valof_eps32 by (simp add: field_simps)
  then have "8796093 < k" by (simp only: of_nat_less_iff)
  then have "8796094 \<le> k" by simp
  then have "real 8796094 \<le> real k" by (simp only: of_nat_le_iff)
  then have "8796094 / 2 ^ 43 \<le> \<bar>valof x\<bar>" unfolding k by (simp add: field_simps)
  then show "1 / 10 ^ 6 < \<bar>valof x\<bar>" by simp
qed

lemma mask_iff:
  "fgt (fabs (d :: float32)) eps32 \<longleftrightarrow> \<not> is_nan d \<and> 1 / 10 ^ 6 < \<bar>valof d\<bar>"
  by (simp add: fgt_def flt_def valof_fabs eps32_gap)

lemma clip1_zero [simp]: "clip1 clip_lo clip_hi plus_zero = plus_zero"
  by (simp add: clip1_def Let_def fgt_def flt_def valof_clip_lo valof_clip_hi)

lemma ndvi_pixel_cases:
  "ndvi_pixel n r =
     (if \<not> is_nan (fadd n r) \<and> 1 / 10 ^ 6 < \<bar>valof (fadd n r)\<bar>
      then clip1 clip_lo clip_hi (fdiv (fsub n r) (fadd n r)) else plus_zero)"
  by (simp add: ndvi_pixel_def mask_iff)

lemma compute_ndvi_nth:
  assumes "shape red_band = shape nir_band"
    and "i < length (data red_band)" "i < length (data nir_band)"
  shows "\<exists>ndvi. compute_ndvi red_band nir_band = Inr ndvi \<and> i < length (data ndvi) \<and>
           data ndvi ! i = ndvi_pixel (data nir_band ! i) (data red_band ! i)"
  using assms by (simp add: compute_ndvi_data)

section \<open>Pixels that are zero in both bands\<close>

lemma ndvi_pixel_zero:
  assumes "is_zero n" "is_zero r"
  shows "ndvi_pixel n r = plus_zero"
proof -
  from assms have "valof n + valof r = 0" by (simp add: is_zero_valof)
  moreover from assms have "is_finite n" "is_finite r"
    using emax_pos [of n] emax_pos [of r] by (simp_all add: is_zero_def is_finite_def)
  ultimately have "fadd n r = zero_of (sign n \<and> sign r)"
    by (simp add: fadd_def is_finite_iff)
  then show ?thesis by (simp add: ndvi_pixel_cases)
qed

lemma map2_const:
  assumes "\<forall>x \<in> set xs. P x" "\<forall>y \<in> set ys. Q y" "\<And>x y. P x \<Longrightarrow> Q y \<Longrightarrow> f x y = c"
    and "length xs = length ys"
  shows "map2 f xs ys = replicate (length xs) c"
  using assms(4,1,2) by (induction xs ys rule: list_induct2) (simp_all add: assms(3))

lemma zero_counts:
  assumes "0 < n"
  shows "filter is_finite (replicate n (plus_zero :: float32)) = replicate n plus_zero"
    "healthy (valid_pixels \<lparr>shape = s, data = replicate n plus_zero\<rparr>) = 0"
    "moderate (valid_pixels \<lparr>shape = s, data = replicate n plus_zero\<rparr>) = 0"
    "stressed (valid_pixels \<lparr>shape = s, data = replicate n plus_zero\<rparr>) = 0"
    "bare (valid_pixels \<lparr>shape = s, data = replicate n plus_zero\<rparr>) = n"
proof -
  have c: "\<not> fgt (plus_zero :: float32) t06" "\<not> fgt (plus_zero :: float32) t04"
    "\<not> fgt (plus_zero :: float32) t02" "fle (plus_zero :: float32) t02"
    by (simp_all add: fgt_def flt_def fle_def valof_t02 valof_t04 valof_t06)
  show "filter is_finite (replicate n (plus_zero :: float32)) = replicate n plus_zero"
    by simp
  then show "healthy (valid_pixels \<lparr>shape = s, data = replicate n plus_zero\<rparr>) = 0"
    "moderate (valid_pixels \<lparr>shape = s, data = replicate n plus_zero\<rparr>) = 0"
    "stressed (valid_pixels \<lparr>shape = s, data = replicate n plus_zero\<rparr>) = 0"
    "bare (valid_pixels \<lparr>shape = s, data = replicate n plus_zero\<rparr>) = n"
    using c
    by (simp_all add: healthy_def moderate_def stressed_def bare_def np_sum_map np_sum_and
        valid_pixels_data)
qed

section \<open>The known-value pixel, bit by bit\<close>

lemma lit_01: "as_float32 (py_float (1 / 10)) = (False, 123, 5033165)"
proof -
  have "py_float (1 / 10) = (False, 1019, 2702159776422298)"
    unfolding py_float_def fround_def Let_def
    apply (simp add: lb_up.simps lb_down.simps pow2_def)?
    apply (simp add: rhe_def Let_def)?
    done
  then show ?thesis
    unfolding as_float32_def fcast_def
    apply (simp add: field_defs)?
    apply (simp add: valof_defs)?
    unfolding fround_def Let_def
    apply (simp add: lb_up.simps lb_down.simps pow2_def)?
    apply (simp add: rhe_def Let_def)?
    done
qed

lemma lit_05: "as_float32 (py_float (5 / 10)) = (False, 126, 0)"
proof -
  have "py_float (5 / 10) = (False, 1022, 0)"
    unfolding py_float_def fround_def Let_def
    apply (simp add: lb_up.simps lb_down.simps pow2_def)?
    apply (simp add: rhe_def Let_def)?
    done
  then show ?thesis
    unfolding as_float32_def fcast_def
    apply (simp add: field_defs)?
    apply (simp add: valof_defs)?
    unfolding fround_def Let_def
    apply (simp add: lb_up.simps lb_down.simps pow2_def)?
    apply (simp add: rhe_def Let_def)?
    done
qed

lemma known_den: "fadd (False, 126, 0) (False, 123, 5033165) = ((False, 126, 1677722) :: float32)"
  unfolding fadd_def
  apply (simp add: field_defs)?
  apply (simp add: valof_defs)?
  unfolding fround_def Let_def
  apply (simp add: lb_up.simps lb_down.simps pow2_def)?
  apply (simp add: rhe_def Let_def)?
  done

lemma known_num: "fsub (False, 126, 0) (False, 123, 5033165) = ((False, 125, 5033165) :: float32)"
  unfolding fsub_def fadd_def fneg_def
  apply (simp add: field_defs)?
  apply (simp add: valof_defs)?
  unfolding fround_def Let_def
  apply (simp add: lb_up.simps lb_down.simps pow2_def)?
  apply (simp add: rhe_def Let_def)?
  done

lemma known_quot: "fdiv (False, 125, 5033165) (False, 126, 1677722) = ((False, 126, 2796202) :: float32)"
  unfolding fdiv_def
  apply (simp add: field_defs)?
  apply (simp add: valof_defs)?
  unfolding fround_def Let_def
  apply (simp add: lb_up.simps lb_down.simps pow2_def)?
  apply (simp add: rhe_def Let_def)?
  done

lemma valof_known: "valof ((False, 126, 2796202) :: float32) = 5592405 / 2 ^ 23"
  by (simp add: valof_defs)

lemma known_pixel: "ndvi_pixel (False, 126, 0) (False, 123, 5033165) = (False, 126, 2796202)"
proof -
  have m: "fgt (fabs ((False, 126, 1677722) :: float32)) eps32"
    unfolding mask_iff by (simp add: field_defs valof_defs)
  have nn: "\<not> is_nan ((False, 126, 2796202) :: float32)"
    by (simp add: field_defs)
  have c: "clip1 clip_lo clip_hi (False, 126, 2796202) = (False, 126, 2796202)"
    using nn by (simp add: clip1_def Let_def fgt_def flt_def valof_clip_lo valof_clip_hi valof_known)
  show ?thesis
    unfolding ndvi_pixel_def known_den known_num known_quot using m c by simp
qed

section \<open>Some percentages, bit by bit\<close>

lemma f64_of_1: "float64_of_int 1 = (False, 1023, 0)"
  unfolding float64_of_int_def fround_def Let_def
  apply (simp add: lb_up.simps lb_down.simps pow2_def)?
  apply (simp add: rhe_def Let_def)?
  done

lemma f64_of_100: "float64_of_int 100 = (False, 1029, 2533274790395904)"
  unfolding float64_of_int_def fround_def Let_def
  apply (simp add: lb_up.simps lb_down.simps pow2_def)?
  apply (simp add: rhe_def Let_def)?
  done

lemma f64_times_100: "fmul (False, 1029, 2533274790395904) (False, 1029, 2533274790395904) =
    ((False, 1036, 993958511509504) :: float64)"
  unfolding fmul_def
  apply (simp add: field_defs)?
  apply (simp add: valof_defs)?
  unfolding fround_def Let_def
  apply (simp add: lb_up.simps lb_down.simps pow2_def)?
  apply (simp add: rhe_def Let_def)?
  done

lemma f64_rint_10000: "frint (False, 1036, 993958511509504) = ((False, 1036, 993958511509504) :: float64)"
  unfolding frint_def
  apply (simp add: field_defs)?
  apply (simp add: valof_defs)?
  unfolding fround_def Let_def
  apply (simp add: lb_up.simps lb_down.simps pow2_def)?
  apply (simp add: rhe_def Let_def)?
  done

lemma f64_10000_by_100: "fdiv (False, 1036, 993958511509504) (False, 1029, 2533274790395904) =
    ((False, 1029, 2533274790395904) :: float64)"
  unfolding fdiv_def
  apply (simp add: field_defs)?
  apply (simp add: valof_defs)?
  unfolding fround_def Let_def
  apply (simp add: lb_up.simps lb_down.simps pow2_def)?
  apply (simp add: rhe_def Let_def)?
  done

lemma np_round_100: "np_round (False, 1029, 2533274790395904) 2 = (False, 1029, 2533274790395904)"
  unfolding np_round_def
  by (simp add: f64_of_100 f64_times_100 f64_rint_10000 f64_10000_by_100)

lemma percent_1_1: "percent 1 1 = (False, 1029, 2533274790395904)"
proof -
  have d: "fdiv (False, 1023, 0) (False, 1023, 0) = ((False, 1023, 0) :: float64)"
    unfolding fdiv_def
    apply (simp add: field_defs)?
    apply (simp add: valof_defs)?
    unfolding fround_def Let_def
    apply (simp add: lb_up.simps lb_down.simps pow2_def)?
    apply (simp add: rhe_def Let_def)?
    done
  have m: "fmul (False, 1023, 0) (False, 1029, 2533274790395904) =
      ((False, 1029, 2533274790395904) :: float64)"
    unfolding fmul_def
    apply (simp add: field_defs)?
    apply (simp add: valof_defs)?
    unfolding fround_def Let_def
    apply (simp add: lb_up.simps lb_down.simps pow2_def)?
    apply (simp add: rhe_def Let_def)?
    done
  show ?thesis
    unfolding percent_def by (simp add: f64_of_1 f64_of_100 d m np_round_100)
qed

lemma percent_0_1: "percent 0 1 = plus_zero"
proof -
  have d: "fdiv plus_zero (False, 1023, 0) = (plus_zero :: float64)"
    unfolding fdiv_def plus_zero_def zero_of_def by (simp add: field_defs)
  have m: "fmul plus_zero (False, 1029, 2533274790395904) = (plus_zero :: float64)"
    unfolding fmul_def plus_zero_def zero_of_def by (simp add: field_defs valof_defs)
  show ?thesis
    unfolding percent_def by (simp add: f64_of_0 f64_of_1 f64_of_100 d m np_round_0)
qed

lemma known_widen: "(fcast ((False, 126, 2796202) :: float32) :: float64) = (False, 1022, 1501199517876224)"
  unfolding fcast_def
  apply (simp add: field_defs)?
  apply (simp add: valof_defs)?
  unfolding fround_def Let_def
  apply (simp add: lb_up.simps lb_down.simps pow2_def)?
  apply (simp add: rhe_def Let_def)?
  done

lemma valof_known_widen: "valof ((False, 1022, 1501199517876224) :: float64) = 5592405 / 2 ^ 23"
  by (simp add: valof_defs)

lemma py_0667: "py_float (667 / 1000) = (False, 1022, 1504202275541746)"
  unfolding py_float_def fround_def Let_def
  apply (simp add: lb_up.simps lb_down.simps pow2_def)?
  apply (simp add: rhe_def Let_def)?
  done

lemma py_06667: "py_float (6667 / 10000) = (False, 1022, 1501500115765323)"
  unfolding py_float_def fround_def Let_def
  apply (simp add: lb_up.simps lb_down.simps pow2_def)?
  apply (simp add: rhe_def Let_def)?
  done

lemma known_round3: "py_round (False, 1022, 1501199517876224) 3 = py_float (667 / 1000)"
proof -
  have r: "rhe (5592405 / 2 ^ 23 * 10 ^ 3) = 667"
    by (simp add: rhe_def Let_def)
  have f: "is_finite ((False, 1022, 1501199517876224) :: float64)"
    by (simp add: field_defs)
  show ?thesis
    unfolding py_round_def valof_known_widen r py_float_def using f by simp
qed

lemma known_round4: "py_round (False, 1022, 1501199517876224) 4 = py_float (6667 / 10000)"
proof -
  have r: "rhe (5592405 / 2 ^ 23 * 10 ^ 4) = 6667"
    by (simp add: rhe_def Let_def)
  have f: "is_finite ((False, 1022, 1501199517876224) :: float64)"
    by (simp add: field_defs)
  show ?thesis
    unfolding py_round_def valof_known_widen r py_float_def using f by simp
qed

lemma known_compute:
  "compute_ndvi \<lparr>shape = [1, 1], data = [as_float32 (py_float (1 / 10))]\<rparr>
                \<lparr>shape = [1, 1], data = [as_float32 (py_float (5 / 10))]\<rparr> =
     Inr \<lparr>shape = [1, 1], data = [(False, 126, 2796202)]\<rparr>"
  unfolding lit_01 lit_05 by (simp add: compute_ndvi_data known_pixel)

lemma known_counts:
  "healthy (valid_pixels \<lparr>shape = [1, 1], data = [(False, 126, 2796202)]\<rparr>) = 1"
  "moderate (valid_pixels \<lparr>shape = [1, 1], data = [(False, 126, 2796202)]\<rparr>) = 0"
  "stressed (valid_pixels \<lparr>shape = [1, 1], data = [(False, 126, 2796202)]\<rparr>) = 0"
  "bare (valid_pixels \<lparr>shape = [1, 1], data = [(False, 126, 2796202)]\<rparr>) = 0"
proof -
  have f: "is_finite ((False, 126, 2796202) :: float32)" "\<not> is_nan ((False, 126, 2796202) :: float32)"
    by (simp_all add: field_defs)
  have c: "fgt (False, 126, 2796202) t06" "\<not> fle (False, 126, 2796202) t06"
    "\<not> fle (False, 126, 2796202) t04" "\<not> fle (False, 126, 2796202) t02"
    using f by (simp_all add: fgt_def flt_def fle_def valof_known valof_t06 valof_t04 valof_t02)
  show "healthy (valid_pixels \<lparr>shape = [1, 1], data = [(False, 126, 2796202)]\<rparr>) = 1"
    "moderate (valid_pixels \<lparr>shape = [1, 1], data = [(False, 126, 2796202)]\<rparr>) = 0"
    "stressed (valid_pixels \<lparr>shape = [1, 1], data = [(False, 126, 2796202)]\<rparr>) = 0"
    "bare (valid_pixels \<lparr>shape = [1, 1], data = [(False, 126, 2796202)]\<rparr>) = 0"
    using f c
    by (simp_all add: healthy_def moderate_def stressed_def bare_def np_sum_map np_sum_and
        valid_pixels_data)
qed

lemma known_statistics:
  "calculate_statistics \<lparr>shape = [1, 1], data = [(False, 126, 2796202)]\<rparr> =
     Inr \<lparr>healthy_vegetation_percent = float64_of_int 100,
          moderate_vegetation_percent = plus_zero,
          stressed_vegetation_percent = plus_zero,
          bare_land_percent = plus_zero,
          min_ndvi = py_float (667 / 1000),
          max_ndvi = py_float (667 / 1000),
          total_valid_pixels = 1\<rparr>"
proof -
  have f: "is_finite ((False, 126, 2796202) :: float32)"
    by (simp add: field_defs)
  then have ne: "filter is_finite (data \<lparr>shape = [1, 1], data = [(False, 126, 2796202) :: float32]\<rparr>) \<noteq> []"
    by simp
  show ?thesis
    unfolding calculate_statistics_some [OF ne] known_counts
    using f percent_1_1 percent_0_1
    by (simp add: f64_of_100 np_min_def np_max_def known_widen known_round3)
qed

section \<open>The percentages of 1 and of 29 pixels out of 32\<close>

lemma f64_of_32: "float64_of_int 32 = (False, 1028, 0)"
  unfolding float64_of_int_def fround_def Let_def
  apply (simp add: lb_up.simps lb_down.simps pow2_def)?
  apply (simp add: rhe_def Let_def)?
  done

lemma f64_of_29: "float64_of_int 29 = (False, 1027, 3659174697238528)"
  unfolding float64_of_int_def fround_def Let_def
  apply (simp add: lb_up.simps lb_down.simps pow2_def)?
  apply (simp add: rhe_def Let_def)?
  done

lemma percent_1_32: "percent 1 32 = (False, 1024, 2522015791327478)"
proof -
  have a: "fdiv (False, 1023, 0) (False, 1028, 0) = ((False, 1018, 0) :: float64)"
    unfolding fdiv_def
    apply (simp add: field_defs)?
    apply (simp add: valof_defs)?
    unfolding fround_def Let_def
    apply (simp add: lb_up.simps lb_down.simps pow2_def)?
    apply (simp add: rhe_def Let_def)?
    done
  have b: "fmul (False, 1018, 0) (False, 1029, 2533274790395904) =
      ((False, 1024, 2533274790395904) :: float64)"
    unfolding fmul_def
    apply (simp add: field_defs)?
    apply (simp add: valof_defs)?
    unfolding fround_def Let_def
    apply (simp add: lb_up.simps lb_down.simps pow2_def)?
    apply (simp add: rhe_def Let_def)?
    done
  have c: "fmul (False, 1024, 2533274790395904) (False, 1029, 2533274790395904) =
      ((False, 1031, 993958511509504) :: float64)"
    unfolding fmul_def
    apply (simp add: field_defs)?
    apply (simp add: valof_defs)?
    unfolding fround_def Let_def
    apply (simp add: lb_up.simps lb_down.simps pow2_def)?
    apply (simp add: rhe_def Let_def)?
    done
  have v: "valof ((False, 1031, 993958511509504) :: float64) = 625 / 2"
    by (simp add: valof_defs)
  have r: "rhe (625 / 2) = 312"
    by (simp add: rhe_def Let_def)
  have f: "fround 312 = ((False, 1031, 985162418487296) :: float64)"
    unfolding fround_def Let_def
    apply (simp add: lb_up.simps lb_down.simps pow2_def)?
    apply (simp add: rhe_def Let_def)?
    done
  have d: "frint (False, 1031, 993958511509504) = ((False, 1031, 985162418487296) :: float64)"
    unfolding frint_def v r using f by (simp add: field_defs)
  have e: "fdiv (False, 1031, 985162418487296) (False, 1029, 2533274790395904) =
      ((False, 1024, 2522015791327478) :: float64)"
    unfolding fdiv_def
    apply (simp add: field_defs)?
    apply (simp add: valof_defs)?
    unfolding fround_def Let_def
    apply (simp add: lb_up.simps lb_down.simps pow2_def)?
    apply (simp add: rhe_def Let_def)?
    done
  show ?thesis
    unfolding percent_def np_round_def
    by (simp add: f64_of_1 f64_of_32 f64_of_100 a b c d e)
qed

lemma percent_29_32: "percent 29 32 = (False, 1029, 1873215970009416)"
proof -
  have a: "fdiv (False, 1027, 3659174697238528) (False, 1028, 0) =
      ((False, 1022, 3659174697238528) :: float64)"
    unfolding fdiv_def
    apply (simp add: field_defs)?
    apply (simp add: valof_defs)?
    unfolding fround_def Let_def
    apply (simp add: lb_up.simps lb_down.simps pow2_def)?
    apply (simp add: rhe_def Let_def)?
    done
  have b: "fmul (False, 1022, 3659174697238528) (False, 1029, 2533274790395904) =
      ((False, 1029, 1873567813730304) :: float64)"
    unfolding fmul_def
    apply (simp add: field_defs)?
    apply (simp add: valof_defs)?
    unfolding fround_def Let_def
    apply (simp add: lb_up.simps lb_down.simps pow2_def)?
    apply (simp add: rhe_def Let_def)?
    done
  have c: "fmul (False, 1029, 1873567813730304) (False, 1029, 2533274790395904) =
      ((False, 1036, 478562435989504) :: float64)"
    unfolding fmul_def
    apply (simp add: field_defs)?
    apply (simp add: valof_defs)?
    unfolding fround_def Let_def
    apply (simp add: lb_up.simps lb_down.simps pow2_def)?
    apply (simp add: rhe_def Let_def)?
    done
  have v: "valof ((False, 1036, 478562435989504) :: float64) = 18125 / 2"
    by (simp add: valof_defs)
  have r: "rhe (18125 / 2) = 9062"
    by (simp add: rhe_def Let_def)
  have f: "fround 9062 = ((False, 1036, 478287558082560) :: float64)"
    unfolding fround_def Let_def
    apply (simp add: lb_up.simps lb_down.simps pow2_def)?
    apply (simp add: rhe_def Let_def)?
    done
  have d: "frint (False, 1036, 478562435989504) = ((False, 1036, 478287558082560) :: float64)"
    unfolding frint_def v r using f by (simp add: field_defs)
  have e: "fdiv (False, 1036, 478287558082560) (False, 1029, 2533274790395904) =
      ((False, 1029, 1873215970009416) :: float64)"
    unfolding fdiv_def
    apply (simp add: field_defs)?
    apply (simp add: valof_defs)?
    unfolding fround_def Let_def
    apply (simp add: lb_up.simps lb_down.simps pow2_def)?
    apply (simp add: rhe_def Let_def)?
    done
  show ?thesis
    unfolding percent_def np_round_def
    by (simp add: f64_of_29 f64_of_32 f64_of_100 a b c d e)
qed

lemma valof_percent_32:
  "valof (percent 1 32) = 7025615418697974 / 2 ^ 51"
  "valof (percent 29 32) = 6376815597379912 / 2 ^ 46"
  unfolding percent_1_32 percent_29_32 by (simp_all add: valof_defs)

lemma percent_all:
  assumes "0 < N" "N < 2 ^ 53"
  shows "percent N N = float64_of_int 100"
proof -
  have N: "0 < int N" "int N < 2 ^ 53" using assms by simp_all
  have one: "(0::int) < 1" "(1::int) < 2 ^ 53" by simp_all
  have "fdiv (float64_of_int (int N)) (float64_of_int (int N)) = fround (real N / real N)"
    using f64_pos_ops(2) [OF f64_of_int_pos(1) [OF N] f64_of_int_pos(1) [OF N]] assms(1)
    by (simp add: f64_of_int_exact [OF N])
  also have "\<dots> = fround 1" using assms(1) by simp
  also have "\<dots> = (False, 1023, 0)"
    unfolding fround_def Let_def
    apply (simp add: lb_up.simps lb_down.simps pow2_def)?
    apply (simp add: rhe_def Let_def)?
    done
  also have "\<dots> = fdiv (float64_of_int 1) (float64_of_int 1)"
  proof -
    have "fdiv (False, 1023, 0) (False, 1023, 0) = ((False, 1023, 0) :: float64)"
      unfolding fdiv_def
      apply (simp add: field_defs)?
      apply (simp add: valof_defs)?
      unfolding fround_def Let_def
      apply (simp add: lb_up.simps lb_down.simps pow2_def)?
      apply (simp add: rhe_def Let_def)?
      done
    then show ?thesis by (simp add: f64_of_1)
  qed
  finally have "percent N N = percent 1 1"
    unfolding percent_def by simp
  then show ?thesis using percent_1_1 by (simp add: f64_of_100)
qed

section \<open>The percentage of one pixel out of three\<close>

lemma f64_of_3: "float64_of_int 3 = (False, 1024, 2251799813685248)"
  unfolding float64_of_int_def fround_def Let_def
  apply (simp add: lb_up.simps lb_down.simps pow2_def)?
  apply (simp add: rhe_def Let_def)?
  done

lemma lit_3333: "py_float (3333 / 100) = (False, 1028, 187180859512586)"
  unfolding py_float_def fround_def Let_def
  apply (simp add: lb_up.simps lb_down.simps pow2_def)?
  apply (simp add: rhe_def Let_def)?
  done

lemma percent_1_3: "percent 1 3 = py_float (3333 / 100)"
proof -
  have a: "fdiv (False, 1023, 0) (False, 1024, 2251799813685248) =
      ((False, 1021, 1501199875790165) :: float64)"
    unfolding fdiv_def
    apply (simp add: field_defs)?
    apply (simp add: valof_defs)?
    unfolding fround_def Let_def
    apply (simp add: lb_up.simps lb_down.simps pow2_def)?
    apply (simp add: rhe_def Let_def)?
    done
  have b: "fmul (False, 1021, 1501199875790165) (False, 1029, 2533274790395904) =
      ((False, 1028, 187649984473770) :: float64)"
    unfolding fmul_def
    apply (simp add: field_defs)?
    apply (simp add: valof_defs)?
    unfolding fround_def Let_def
    apply (simp add: lb_up.simps lb_down.simps pow2_def)?
    apply (simp add: rhe_def Let_def)?
    done
  have c: "fmul (False, 1028, 187649984473770) (False, 1029, 2533274790395904) =
      ((False, 1034, 2826477891136170) :: float64)"
    unfolding fmul_def
    apply (simp add: field_defs)?
    apply (simp add: valof_defs)?
    unfolding fround_def Let_def
    apply (simp add: lb_up.simps lb_down.simps pow2_def)?
    apply (simp add: rhe_def Let_def)?
    done
  have v: "valof ((False, 1034, 2826477891136170) :: float64) = 3665038759253333 / 1099511627776"
    by (simp add: valof_defs)
  have r: "rhe (3665038759253333 / 1099511627776) = 3333"
    by (simp add: rhe_def Let_def)
  have f: "fround 3333 = ((False, 1034, 2825744883384320) :: float64)"
    unfolding fround_def Let_def
    apply (simp add: lb_up.simps lb_down.simps pow2_def)?
    apply (simp add: rhe_def Let_def)?
    done
  have d: "frint (False, 1034, 2826477891136170) = ((False, 1034, 2825744883384320) :: float64)"
    unfolding frint_def v r using f by (simp add: field_defs)
  have e: "fdiv (False, 1034, 2825744883384320) (False, 1029, 2533274790395904) =
      ((False, 1028, 187180859512586) :: float64)"
    unfolding fdiv_def
    apply (simp add: field_defs)?
    apply (simp add: valof_defs)?
    unfolding fround_def Let_def
    apply (simp add: lb_up.simps lb_down.simps pow2_def)?
    apply (simp add: rhe_def Let_def)?
    done
  show ?thesis
    unfolding percent_def np_round_def lit_3333
    by (simp add: f64_of_1 f64_of_3 f64_of_100 a b c d e)
qed

lemma percent_0_3: "percent 0 3 = plus_zero"
  by (rule percent_zero) simp_all

section \<open>Running the two functions in a store\<close>


lemma get_bool_iff: "get_bool a h = Some m \<longleftrightarrow> a < length h \<and> h ! a = BoolArray m"
  by (auto simp: get_bool_def split: obj.splits)




text \<open>
  C1. For two grids of one shape whose values are all finite, \<^verbatim>\<open>compute_ndvi\<close> returns a
  grid, and every value of it is a finite float in the closed interval \<open>[-1, 1]\<close>. (A
  difference or a sum of finite values may overflow to an infinity; the quotient is then
  an infinity or a zero, never a NaN, and the clip brings it into the interval.)
\<close>

theorem compute_ndvi_range:
  assumes "shape red_band = shape nir_band"
    and "\<forall>x \<in> set (data red_band). is_finite x"
    and "\<forall>x \<in> set (data nir_band). is_finite x"
  shows "\<exists>ndvi. compute_ndvi red_band nir_band = Inr ndvi \<and>
           (\<forall>v \<in> set (data ndvi). is_finite v \<and> - 1 \<le> valof v \<and> valof v \<le> 1)"
proof -
  have "is_finite v \<and> - 1 \<le> valof v \<and> valof v \<le> 1"
    if "v \<in> set (map2 ndvi_pixel (data nir_band) (data red_band))" for v
  proof -
    from that obtain n r where nr: "(n, r) \<in> set (zip (data nir_band) (data red_band))"
      and v: "v = ndvi_pixel n r"
      by auto
    from nr have "n \<in> set (data nir_band)" "r \<in> set (data red_band)"
      by (auto dest: set_zip_leftD set_zip_rightD)
    with assms have "is_finite n" "is_finite r" by simp_all
    then show ?thesis unfolding v by (rule ndvi_pixel_range)
  qed
  then show ?thesis
    by (simp add: compute_ndvi_data [OF assms(1)])
qed

theorem compute_ndvi_range_witness:
  "\<exists>ndvi. compute_ndvi \<lparr>shape = [1, 2], data = [(False, 123, 5033165), (True, 254, 8388607)]\<rparr>
                         \<lparr>shape = [1, 2], data = [(False, 126, 0), (False, 254, 8388607)]\<rparr> = Inr ndvi \<and>
           (\<forall>v \<in> set (data ndvi). is_finite v \<and> - 1 \<le> valof v \<and> valof v \<le> 1)"
  by (rule compute_ndvi_range) (simp_all add: field_defs)

text \<open>
  C2. On a grid on which \<^verbatim>\<open>calculate_statistics\<close> succeeds, each finite pixel passes
  exactly one of the four tests, and the four counts sum to the number of finite pixels,
  which is \<^verbatim>\<open>total_valid_pixels\<close>. The four percentages are rounded one by one, so
  their sum can miss 100 by two hundredths. As the claim is worded, with a sum within
  \<open>0.01\<close> of 100, it fails on a grid of 32 pixels of which one is healthy, one moderate,
  one stressed and 29 bare: \<open>100 / 32 = 3.125\<close> is reported as \<open>3.12\<close>,
  \<open>2900 / 32 = 90.625\<close> as \<open>90.62\<close>, and \<open>3 \<times> 3.12 + 90.62 = 99.98\<close>.
\<close>

theorem percentages_sum_to_99_98:
  "\<exists>st. calculate_statistics
          \<lparr>shape = [4, 8],
             data = (False, 126, 4194304) # (False, 126, 0) # (False, 125, 0) # replicate 29 plus_zero\<rparr>
        = Inr st \<and>
      total_valid_pixels st = 32 \<and>
      healthy_vegetation_percent st = percent 1 32 \<and>
      moderate_vegetation_percent st = percent 1 32 \<and>
      stressed_vegetation_percent st = percent 1 32 \<and>
      bare_land_percent st = percent 29 32 \<and>
      \<not> \<bar>valof (healthy_vegetation_percent st) + valof (moderate_vegetation_percent st) +
           valof (stressed_vegetation_percent st) + valof (bare_land_percent st) - 100\<bar> \<le> 1 / 100"
proof -
  let ?g = "\<lparr>shape = [4, 8],
     data = (False, 126, 4194304) # (False, 126, 0) # (False, 125, 0) # replicate 29 (plus_zero :: float32)\<rparr>"
  have fin: "is_finite ((False, 126, 4194304) :: float32)" "is_finite ((False, 126, 0) :: float32)"
    "is_finite ((False, 125, 0) :: float32)"
    by (simp_all add: field_defs)
  then have nn: "\<not> is_nan ((False, 126, 4194304) :: float32)" "\<not> is_nan ((False, 126, 0) :: float32)"
    "\<not> is_nan ((False, 125, 0) :: float32)"
    by (simp_all add: is_finite_iff)
  have v: "valof ((False, 126, 4194304) :: float32) = 3 / 4" "valof ((False, 126, 0) :: float32) = 1 / 2"
    "valof ((False, 125, 0) :: float32) = 1 / 4"
    by (simp_all add: valof_defs)
  have valid: "filter is_finite (data ?g) = data ?g"
    using fin by simp
  have counts: "healthy (valid_pixels ?g) = 1" "moderate (valid_pixels ?g) = 1"
    "stressed (valid_pixels ?g) = 1" "bare (valid_pixels ?g) = 29"
    unfolding healthy_def moderate_def stressed_def bare_def np_sum_map np_sum_and
      valid_pixels_data valid
    using nn by (simp_all add: fgt_def flt_def fle_def v valof_t02 valof_t04 valof_t06)
  have ne: "filter is_finite (data ?g) \<noteq> []" unfolding valid by simp
  have len: "length (filter is_finite (data ?g)) = 32" unfolding valid by simp
  obtain st where st: "calculate_statistics ?g = Inr st"
    "healthy_vegetation_percent st = percent 1 32"
    "moderate_vegetation_percent st = percent 1 32"
    "stressed_vegetation_percent st = percent 1 32"
    "bare_land_percent st = percent 29 32"
    "total_valid_pixels st = 32"
    using calculate_statistics_fields [OF ne] unfolding counts len by blast
  have "\<not> \<bar>valof (percent 1 32) + valof (percent 1 32) + valof (percent 1 32)
      + valof (percent 29 32) - 100\<bar> \<le> 1 / 100"
    unfolding valof_percent_32 by simp
  with st show ?thesis by (intro exI [of _ st]) simp
qed

text \<open>
  C2, amended: the counts as claimed; the four percentages sum to 100 within \<open>0.02\<close>
  (and within the \<^verbatim>\<open>float64\<close> representation error of the four values, below
  \<open>101 / 2\<^sup>5\<^sup>3\<close>), for a grid of fewer than \<open>2\<^sup>5\<^sup>3\<close> pixels.
\<close>

theorem classification_complete:
  assumes "calculate_statistics ndvi = Inr st"
  shows "healthy (valid_pixels ndvi) + moderate (valid_pixels ndvi) + stressed (valid_pixels ndvi)
      + bare (valid_pixels ndvi) = total_valid_pixels st \<and>
    total_valid_pixels st = length (filter is_finite (data ndvi)) \<and>
    (\<forall>x \<in> set (data (valid_pixels ndvi)). is_finite x \<and> length (filter id (band_tests x)) = 1) \<and>
    (length (data ndvi) < 2 ^ 53 \<longrightarrow>
      \<bar>valof (healthy_vegetation_percent st) + valof (moderate_vegetation_percent st) +
       valof (stressed_vegetation_percent st) + valof (bare_land_percent st) - 100\<bar>
        \<le> 2 / 100 + 101 / 2 ^ 53)"
proof -
  let ?v = "valid_pixels ndvi"
  let ?N = "length (filter is_finite (data ndvi))"
  have ne: "filter is_finite (data ndvi) \<noteq> []"
    using assms calculate_statistics_none [of ndvi] by auto
  then have N0: "0 < ?N" by simp
  obtain st' where st': "calculate_statistics ndvi = Inr st'"
    "healthy_vegetation_percent st' = percent (healthy ?v) ?N"
    "moderate_vegetation_percent st' = percent (moderate ?v) ?N"
    "stressed_vegetation_percent st' = percent (stressed ?v) ?N"
    "bare_land_percent st' = percent (bare ?v) ?N"
    "total_valid_pixels st' = ?N"
    using calculate_statistics_fields [OF ne] by blast
  with assms have eq: "st' = st" by simp
  note st = st'(2-6) [unfolded eq]
  have sum: "healthy ?v + moderate ?v + stressed ?v + bare ?v = ?N" by (rule counts_sum)
  have one: "\<forall>x \<in> set (data ?v). is_finite x \<and> length (filter id (band_tests x)) = 1"
    using band_tests_one by (simp add: valid_pixels_data)
  have pct: "\<bar>valof (percent (healthy ?v) ?N) + valof (percent (moderate ?v) ?N) +
       valof (percent (stressed ?v) ?N) + valof (percent (bare ?v) ?N) - 100\<bar>
        \<le> 2 / 100 + 101 / 2 ^ 53" if small: "length (data ndvi) < 2 ^ 53"
  proof -
    have "?N \<le> length (data ndvi)" by simp
    with small have N53: "?N < 2 ^ 53" by linarith
    have le: "healthy ?v \<le> ?N" "moderate ?v \<le> ?N" "stressed ?v \<le> ?N" "bare ?v \<le> ?N"
      using sum by linarith+
    obtain k1 :: int where k1: "0 \<le> k1"
      "\<bar>real_of_int k1 - 10 ^ 4 * real (healthy ?v) / real ?N\<bar> \<le> 1 / 2 + 40100 / 2 ^ 53"
      "\<bar>valof (percent (healthy ?v) ?N) - real_of_int k1 / 100\<bar> \<le> real_of_int k1 / 100 / 2 ^ 53"
      using percent_bound [OF N0 le(1) N53] by blast
    obtain k2 :: int where k2: "0 \<le> k2"
      "\<bar>real_of_int k2 - 10 ^ 4 * real (moderate ?v) / real ?N\<bar> \<le> 1 / 2 + 40100 / 2 ^ 53"
      "\<bar>valof (percent (moderate ?v) ?N) - real_of_int k2 / 100\<bar> \<le> real_of_int k2 / 100 / 2 ^ 53"
      using percent_bound [OF N0 le(2) N53] by blast
    obtain k3 :: int where k3: "0 \<le> k3"
      "\<bar>real_of_int k3 - 10 ^ 4 * real (stressed ?v) / real ?N\<bar> \<le> 1 / 2 + 40100 / 2 ^ 53"
      "\<bar>valof (percent (stressed ?v) ?N) - real_of_int k3 / 100\<bar> \<le> real_of_int k3 / 100 / 2 ^ 53"
      using percent_bound [OF N0 le(3) N53] by blast
    obtain k4 :: int where k4: "0 \<le> k4"
      "\<bar>real_of_int k4 - 10 ^ 4 * real (bare ?v) / real ?N\<bar> \<le> 1 / 2 + 40100 / 2 ^ 53"
      "\<bar>valof (percent (bare ?v) ?N) - real_of_int k4 / 100\<bar> \<le> real_of_int k4 / 100 / 2 ^ 53"
      using percent_bound [OF N0 le(4) N53] by blast
    have "real (healthy ?v) + real (moderate ?v) + real (stressed ?v) + real (bare ?v) = real ?N"
      using sum by (simp only: of_nat_add [symmetric])
    then have t: "10 ^ 4 * real (healthy ?v) / real ?N + 10 ^ 4 * real (moderate ?v) / real ?N +
        10 ^ 4 * real (stressed ?v) / real ?N + 10 ^ 4 * real (bare ?v) / real ?N = 10 ^ 4"
      using N0 by (simp add: field_simps)
    show ?thesis
      by (rule four_sum(2) [OF t k1(1) k2(1) k3(1) k4(1) k1(2) k2(2) k3(2) k4(2) k1(3) k2(3) k3(3) k4(3)])
  qed
  show ?thesis
    unfolding st using sum one pct by simp
qed

theorem classification_complete_witness:
  "healthy (valid_pixels \<lparr>shape = [1, 1], data = [(False, 126, 2796202)]\<rparr>)
     + moderate (valid_pixels \<lparr>shape = [1, 1], data = [(False, 126, 2796202)]\<rparr>)
     + stressed (valid_pixels \<lparr>shape = [1, 1], data = [(False, 126, 2796202)]\<rparr>)
     + bare (valid_pixels \<lparr>shape = [1, 1], data = [(False, 126, 2796202)]\<rparr>) = 1 \<and>
   \<bar>valof (float64_of_int 100) + valof (plus_zero :: float64) + valof (plus_zero :: float64)
      + valof (plus_zero :: float64) - 100\<bar> \<le> 2 / 100 + 101 / 2 ^ 53"
proof -
  note c = classification_complete [OF known_statistics]
  have small: "length (data \<lparr>shape = [1, 1], data = [(False, 126, 2796202) :: float32]\<rparr>) < 2 ^ 53"
    by simp
  have a: "healthy (valid_pixels \<lparr>shape = [1, 1], data = [(False, 126, 2796202)]\<rparr>)
     + moderate (valid_pixels \<lparr>shape = [1, 1], data = [(False, 126, 2796202)]\<rparr>)
     + stressed (valid_pixels \<lparr>shape = [1, 1], data = [(False, 126, 2796202)]\<rparr>)
     + bare (valid_pixels \<lparr>shape = [1, 1], data = [(False, 126, 2796202)]\<rparr>) = 1"
    using c [THEN conjunct1] by (simp only: stats.simps)
  have b: "\<bar>valof (float64_of_int 100) + valof (plus_zero :: float64) + valof (plus_zero :: float64)
      + valof (plus_zero :: float64) - 100\<bar> \<le> 2 / 100 + 101 / 2 ^ 53"
    using c [THEN conjunct2, THEN conjunct2, THEN conjunct2, rule_format, OF small]
    by (simp only: stats.simps)
  from a b show ?thesis by (rule conjI)
qed

text \<open>
  C3. At a position where the denominator \<open>nir + red\<close>, as \<^verbatim>\<open>float32\<close> addition computes
  it, has an absolute value of at most \<open>10\<^sup>-\<^sup>6\<close>, \<^verbatim>\<open>compute_ndvi\<close> leaves exactly
  \<open>+0.0\<close>, a finite value; so it does for the pair \<open>red = 0, nir = 0\<close>. The quotient
  is taken exactly where the denominator is not a NaN and exceeds \<open>10\<^sup>-\<^sup>6\<close> in
  absolute value.
\<close>

theorem compute_ndvi_zero_denominator:
  assumes "shape red_band = shape nir_band"
    and "i < length (data red_band)" "i < length (data nir_band)"
  shows "\<exists>ndvi. compute_ndvi red_band nir_band = Inr ndvi \<and> i < length (data ndvi) \<and>
    (\<not> is_nan (fadd (data nir_band ! i) (data red_band ! i)) \<and>
       \<bar>valof (fadd (data nir_band ! i) (data red_band ! i))\<bar> \<le> 1 / 10 ^ 6 \<longrightarrow>
         data ndvi ! i = plus_zero) \<and>
    (is_zero (data nir_band ! i) \<and> is_zero (data red_band ! i) \<longrightarrow> data ndvi ! i = plus_zero) \<and>
    data ndvi ! i =
      (if \<not> is_nan (fadd (data nir_band ! i) (data red_band ! i)) \<and>
          1 / 10 ^ 6 < \<bar>valof (fadd (data nir_band ! i) (data red_band ! i))\<bar>
       then clip1 clip_lo clip_hi
              (fdiv (fsub (data nir_band ! i) (data red_band ! i))
                    (fadd (data nir_band ! i) (data red_band ! i)))
       else plus_zero) \<and>
    is_finite (plus_zero :: float32) \<and> valof (plus_zero :: float32) = 0"
proof -
  let ?n = "data nir_band ! i" and ?r = "data red_band ! i"
  obtain ndvi where ndvi: "compute_ndvi red_band nir_band = Inr ndvi" "i < length (data ndvi)"
    "data ndvi ! i = ndvi_pixel ?n ?r"
    using compute_ndvi_nth [OF assms] by blast
  have zero: "ndvi_pixel ?n ?r = plus_zero" if "is_zero ?n" "is_zero ?r"
  proof -
    from that have "valof ?n + valof ?r = 0" by (simp add: is_zero_valof)
    moreover from that have "is_finite ?n" "is_finite ?r"
      using emax_pos [of ?n] emax_pos [of ?r] by (simp_all add: is_zero_def is_finite_def)
    ultimately have "fadd ?n ?r = zero_of (sign ?n \<and> sign ?r)"
      by (simp add: fadd_def is_finite_iff)
    then show ?thesis by (simp add: ndvi_pixel_cases)
  qed
  show ?thesis
    using ndvi zero by (auto simp: ndvi_pixel_cases)
qed

theorem compute_ndvi_zero_denominator_witness:
  "\<exists>ndvi. compute_ndvi \<lparr>shape = [1, 2], data = [plus_zero, (False, 123, 5033165)]\<rparr>
                         \<lparr>shape = [1, 2], data = [plus_zero, (False, 126, 0)]\<rparr> = Inr ndvi \<and>
           data ndvi ! 0 = plus_zero"
proof -
  have z: "is_zero (plus_zero :: float32)"
    using zero_of_simps(7) [of False] by (simp add: zero_of_def plus_zero_def)
  show ?thesis
    using compute_ndvi_zero_denominator
      [of "\<lparr>shape = [1, 2], data = [plus_zero, (False, 123, 5033165)]\<rparr>"
          "\<lparr>shape = [1, 2], data = [plus_zero, (False, 126, 0)]\<rparr>" 0] z
    by auto
qed

section \<open>The claims\<close>

text \<open>
  C4. For two grids of unequal shapes \<^verbatim>\<open>compute_ndvi\<close> fails with the shape-mismatch
  error, whose message holds both shapes as Python prints them; nothing is broadcast or
  truncated. For equal shapes the error is not raised: a grid of that same shape comes
  back, with one element for each element of the inputs.
\<close>

theorem compute_ndvi_shape_contract:
  "(shape red_band \<noteq> shape nir_band \<longrightarrow>
      compute_ndvi red_band nir_band =
        Inl (ValueError (''Band dimension mismatch: RED '' @ repr_shape (shape red_band) @
               '' vs NIR '' @ repr_shape (shape nir_band)))) \<and>
   (shape red_band = shape nir_band \<longrightarrow>
      (\<exists>ndvi. compute_ndvi red_band nir_band = Inr ndvi \<and> shape ndvi = shape red_band \<and>
         (wf_array red_band \<and> wf_array nir_band \<longrightarrow>
            wf_array ndvi \<and> length (data ndvi) = length (data red_band))))"
proof (intro conjI impI)
  assume "shape red_band \<noteq> shape nir_band"
  then show "compute_ndvi red_band nir_band =
        Inl (ValueError (''Band dimension mismatch: RED '' @ repr_shape (shape red_band) @
               '' vs NIR '' @ repr_shape (shape nir_band)))"
    by (simp add: compute_ndvi_def)
next
  assume eq: "shape red_band = shape nir_band"
  show "\<exists>ndvi. compute_ndvi red_band nir_band = Inr ndvi \<and> shape ndvi = shape red_band \<and>
         (wf_array red_band \<and> wf_array nir_band \<longrightarrow>
            wf_array ndvi \<and> length (data ndvi) = length (data red_band))"
    using eq by (simp add: compute_ndvi_data wf_array_def)
qed

theorem compute_ndvi_shape_contract_witness:
  "compute_ndvi \<lparr>shape = [1, 2], data = [plus_zero, plus_zero]\<rparr>
                \<lparr>shape = [2, 1], data = [plus_zero, plus_zero]\<rparr> =
     Inl (ValueError ''Band dimension mismatch: RED (1, 2) vs NIR (2, 1)'') \<and>
   (\<exists>ndvi. compute_ndvi \<lparr>shape = [1, 2], data = [plus_zero, plus_zero]\<rparr>
                         \<lparr>shape = [1, 2], data = [plus_zero, plus_zero]\<rparr> = Inr ndvi \<and>
           shape ndvi = [1, 2] \<and> length (data ndvi) = 2)"
  using compute_ndvi_shape_contract
          [of "\<lparr>shape = [1, 2], data = [plus_zero, plus_zero]\<rparr>"
              "\<lparr>shape = [2, 1], data = [plus_zero, plus_zero]\<rparr>"]
        compute_ndvi_shape_contract
          [of "\<lparr>shape = [1, 2], data = [plus_zero, plus_zero]\<rparr>"
              "\<lparr>shape = [1, 2], data = [plus_zero, plus_zero]\<rparr>"]
  by (auto simp: repr_shape_def str_nat.simps wf_array_def)

text \<open>
  C5. In \<^verbatim>\<open>calculate_statistics\<close> the band boundaries belong to the lower band. In a
  \<^verbatim>\<open>float32\<close> grid the value \<^verbatim>\<open>0.2\<close> is the float nearest to \<open>0.2\<close>, the same float the
  comparison \<^verbatim>\<open>valid_ndvi <= 0.2\<close> uses, and so for \<^verbatim>\<open>0.4\<close> and \<^verbatim>\<open>0.6\<close>. Take any grid
  and put one more pixel with the value \<^verbatim>\<open>0.2\<close> anywhere in it: \<^verbatim>\<open>calculate_statistics\<close>
  succeeds on the new grid, \<^verbatim>\<open>total_valid_pixels\<close> is one more than the number of finite
  pixels of the old grid, the count behind \<^verbatim>\<open>bare_land_percent\<close> is one more than the
  old count, and the counts behind the other three percentages are the old ones. A pixel
  with the value \<^verbatim>\<open>0.4\<close> goes in the same way to \<^verbatim>\<open>stressed_vegetation_percent\<close> only, one
  with \<^verbatim>\<open>0.6\<close> to \<^verbatim>\<open>moderate_vegetation_percent\<close> only. On the grid of the three pixels
  \<^verbatim>\<open>0.2\<close>, \<^verbatim>\<open>0.4\<close>, \<^verbatim>\<open>0.6\<close> the function reports \<^verbatim>\<open>33.33\<close> for bare land, for stressed
  and for moderate vegetation, and \<^verbatim>\<open>0.0\<close> for healthy vegetation.
\<close>

theorem boundary_belongs_to_lower_band:
  "(let old = valid_pixels \<lparr>shape = [length (xs @ ys)], data = xs @ ys\<rparr> in
    (\<exists>st. calculate_statistics \<lparr>shape = s, data = xs @ t02 # ys\<rparr> = Inr st \<and>
       total_valid_pixels st = Suc (length (data old)) \<and>
       bare_land_percent st = percent (Suc (bare old)) (total_valid_pixels st) \<and>
       stressed_vegetation_percent st = percent (stressed old) (total_valid_pixels st) \<and>
       moderate_vegetation_percent st = percent (moderate old) (total_valid_pixels st) \<and>
       healthy_vegetation_percent st = percent (healthy old) (total_valid_pixels st)) \<and>
    (\<exists>st. calculate_statistics \<lparr>shape = s, data = xs @ t04 # ys\<rparr> = Inr st \<and>
       total_valid_pixels st = Suc (length (data old)) \<and>
       bare_land_percent st = percent (bare old) (total_valid_pixels st) \<and>
       stressed_vegetation_percent st = percent (Suc (stressed old)) (total_valid_pixels st) \<and>
       moderate_vegetation_percent st = percent (moderate old) (total_valid_pixels st) \<and>
       healthy_vegetation_percent st = percent (healthy old) (total_valid_pixels st)) \<and>
    (\<exists>st. calculate_statistics \<lparr>shape = s, data = xs @ t06 # ys\<rparr> = Inr st \<and>
       total_valid_pixels st = Suc (length (data old)) \<and>
       bare_land_percent st = percent (bare old) (total_valid_pixels st) \<and>
       stressed_vegetation_percent st = percent (stressed old) (total_valid_pixels st) \<and>
       moderate_vegetation_percent st = percent (Suc (moderate old)) (total_valid_pixels st) \<and>
       healthy_vegetation_percent st = percent (healthy old) (total_valid_pixels st))) \<and>
   (\<exists>st. calculate_statistics \<lparr>shape = [1, 3], data = [t02, t04, t06]\<rparr> = Inr st \<and>
      total_valid_pixels st = 3 \<and>
      bare_land_percent st = py_float (3333 / 100) \<and>
      stressed_vegetation_percent st = py_float (3333 / 100) \<and>
      moderate_vegetation_percent st = py_float (3333 / 100) \<and>
      healthy_vegetation_percent st = plus_zero)"
proof -
  let ?old = "valid_pixels \<lparr>shape = [length (xs @ ys)], data = xs @ ys\<rparr>"
  have fin: "is_finite t02" "is_finite t04" "is_finite t06"
    unfolding t02_eq t04_eq t06_eq by (simp_all add: field_defs)
  have cmp:
    "fle t02 t02" "\<not> fgt t02 t02" "\<not> fgt t02 t04" "\<not> fgt t02 t06"
    "\<not> fle t04 t02" "fgt t04 t02" "fle t04 t04" "\<not> fgt t04 t04" "\<not> fgt t04 t06"
    "\<not> fle t06 t02" "fgt t06 t02" "\<not> fle t06 t04" "fgt t06 t04" "fle t06 t06" "\<not> fgt t06 t06"
    by (simp_all add: fle_def fgt_def flt_def valof_t02 valof_t04 valof_t06)
  have counts: "length (filter is_finite (data \<lparr>shape = s, data = xs @ v # ys\<rparr>))
        = Suc (length (data ?old))"
      "bare (valid_pixels \<lparr>shape = s, data = xs @ v # ys\<rparr>)
        = (if fle v t02 then Suc (bare ?old) else bare ?old)"
      "stressed (valid_pixels \<lparr>shape = s, data = xs @ v # ys\<rparr>)
        = (if fgt v t02 \<and> fle v t04 then Suc (stressed ?old) else stressed ?old)"
      "moderate (valid_pixels \<lparr>shape = s, data = xs @ v # ys\<rparr>)
        = (if fgt v t04 \<and> fle v t06 then Suc (moderate ?old) else moderate ?old)"
      "healthy (valid_pixels \<lparr>shape = s, data = xs @ v # ys\<rparr>)
        = (if fgt v t06 then Suc (healthy ?old) else healthy ?old)"
    if "is_finite v" for v
    using that
    by (simp_all add: bare_def stressed_def moderate_def healthy_def np_sum_map np_sum_and
        valid_pixels_data)
  have one: "\<exists>st. calculate_statistics \<lparr>shape = s, data = xs @ v # ys\<rparr> = Inr st \<and>
       total_valid_pixels st = Suc (length (data ?old)) \<and>
       bare_land_percent st
         = percent (if fle v t02 then Suc (bare ?old) else bare ?old) (total_valid_pixels st) \<and>
       stressed_vegetation_percent st
         = percent (if fgt v t02 \<and> fle v t04 then Suc (stressed ?old) else stressed ?old)
             (total_valid_pixels st) \<and>
       moderate_vegetation_percent st
         = percent (if fgt v t04 \<and> fle v t06 then Suc (moderate ?old) else moderate ?old)
             (total_valid_pixels st) \<and>
       healthy_vegetation_percent st
         = percent (if fgt v t06 then Suc (healthy ?old) else healthy ?old) (total_valid_pixels st)"
    if fin: "is_finite v" for v
  proof -
    have ne: "filter is_finite (data \<lparr>shape = s, data = xs @ v # ys\<rparr>) \<noteq> []"
      using fin by simp
    obtain st where st: "calculate_statistics \<lparr>shape = s, data = xs @ v # ys\<rparr> = Inr st"
      "healthy_vegetation_percent st = percent (healthy (valid_pixels \<lparr>shape = s, data = xs @ v # ys\<rparr>))
          (length (filter is_finite (data \<lparr>shape = s, data = xs @ v # ys\<rparr>)))"
      "moderate_vegetation_percent st = percent (moderate (valid_pixels \<lparr>shape = s, data = xs @ v # ys\<rparr>))
          (length (filter is_finite (data \<lparr>shape = s, data = xs @ v # ys\<rparr>)))"
      "stressed_vegetation_percent st = percent (stressed (valid_pixels \<lparr>shape = s, data = xs @ v # ys\<rparr>))
          (length (filter is_finite (data \<lparr>shape = s, data = xs @ v # ys\<rparr>)))"
      "bare_land_percent st = percent (bare (valid_pixels \<lparr>shape = s, data = xs @ v # ys\<rparr>))
          (length (filter is_finite (data \<lparr>shape = s, data = xs @ v # ys\<rparr>)))"
      "total_valid_pixels st = length (filter is_finite (data \<lparr>shape = s, data = xs @ v # ys\<rparr>))"
      using calculate_statistics_fields [OF ne] by blast
    show ?thesis
      by (intro exI [of _ st] conjI st(1))
        (simp_all only: st(2-6) counts [OF fin])
  qed
  have g02: "\<exists>st. calculate_statistics \<lparr>shape = s, data = xs @ t02 # ys\<rparr> = Inr st \<and>
       total_valid_pixels st = Suc (length (data ?old)) \<and>
       bare_land_percent st = percent (Suc (bare ?old)) (total_valid_pixels st) \<and>
       stressed_vegetation_percent st = percent (stressed ?old) (total_valid_pixels st) \<and>
       moderate_vegetation_percent st = percent (moderate ?old) (total_valid_pixels st) \<and>
       healthy_vegetation_percent st = percent (healthy ?old) (total_valid_pixels st)"
    using one [OF fin(1)] by (simp only: cmp if_True if_False simp_thms)
  have g04: "\<exists>st. calculate_statistics \<lparr>shape = s, data = xs @ t04 # ys\<rparr> = Inr st \<and>
       total_valid_pixels st = Suc (length (data ?old)) \<and>
       bare_land_percent st = percent (bare ?old) (total_valid_pixels st) \<and>
       stressed_vegetation_percent st = percent (Suc (stressed ?old)) (total_valid_pixels st) \<and>
       moderate_vegetation_percent st = percent (moderate ?old) (total_valid_pixels st) \<and>
       healthy_vegetation_percent st = percent (healthy ?old) (total_valid_pixels st)"
    using one [OF fin(2)] by (simp only: cmp if_True if_False simp_thms)
  have g06: "\<exists>st. calculate_statistics \<lparr>shape = s, data = xs @ t06 # ys\<rparr> = Inr st \<and>
       total_valid_pixels st = Suc (length (data ?old)) \<and>
       bare_land_percent st = percent (bare ?old) (total_valid_pixels st) \<and>
       stressed_vegetation_percent st = percent (stressed ?old) (total_valid_pixels st) \<and>
       moderate_vegetation_percent st = percent (Suc (moderate ?old)) (total_valid_pixels st) \<and>
       healthy_vegetation_percent st = percent (healthy ?old) (total_valid_pixels st)"
    using one [OF fin(3)] by (simp only: cmp if_True if_False simp_thms)
  let ?g = "\<lparr>shape = [1, 3], data = [t02, t04, t06]\<rparr>"
  have valid: "filter is_finite (data ?g) = [t02, t04, t06]"
    using fin by simp
  have k: "bare (valid_pixels ?g) = 1" "stressed (valid_pixels ?g) = 1"
    "moderate (valid_pixels ?g) = 1" "healthy (valid_pixels ?g) = 0"
    unfolding bare_def stressed_def moderate_def healthy_def np_sum_map np_sum_and
      valid_pixels_data valid
    using cmp by simp_all
  have ne: "filter is_finite (data ?g) \<noteq> []" unfolding valid by simp
  have len: "length (filter is_finite (data ?g)) = 3" unfolding valid by simp
  obtain st where st: "calculate_statistics ?g = Inr st"
    "healthy_vegetation_percent st = percent 0 3"
    "moderate_vegetation_percent st = percent 1 3"
    "stressed_vegetation_percent st = percent 1 3"
    "bare_land_percent st = percent 1 3"
    "total_valid_pixels st = 3"
    using calculate_statistics_fields [OF ne] unfolding k len by blast
  have three: "\<exists>st. calculate_statistics ?g = Inr st \<and>
      total_valid_pixels st = 3 \<and>
      bare_land_percent st = py_float (3333 / 100) \<and>
      stressed_vegetation_percent st = py_float (3333 / 100) \<and>
      moderate_vegetation_percent st = py_float (3333 / 100) \<and>
      healthy_vegetation_percent st = plus_zero"
    by (intro exI [of _ st] conjI st(1)) (simp_all only: st(2-6) percent_1_3 percent_0_3)
  show ?thesis
    unfolding Let_def by (intro conjI g02 g04 g06 three)
qed

text \<open>
  C6. \<^verbatim>\<open>calculate_statistics\<close> raises the no-valid-pixels error exactly when the grid
  holds no finite value; it raises no other error; a grid of NaNs only fails with it.
\<close>

theorem calculate_statistics_error:
  "(calculate_statistics ndvi = Inl (ValueError ''No valid NDVI pixels found after masking'')
      \<longleftrightarrow> (\<forall>v \<in> set (data ndvi). \<not> is_finite v)) \<and>
   (\<forall>e. calculate_statistics ndvi = Inl e \<longrightarrow>
      e = ValueError ''No valid NDVI pixels found after masking'') \<and>
   ((\<forall>v \<in> set (data ndvi). is_nan v) \<longrightarrow>
      calculate_statistics ndvi = Inl (ValueError ''No valid NDVI pixels found after masking''))"
proof (cases "filter is_finite (data ndvi) = []")
  case True
  then have "\<forall>v \<in> set (data ndvi). \<not> is_finite v"
    by (simp add: filter_empty_conv)
  with calculate_statistics_none [OF True] show ?thesis by simp
next
  case False
  then obtain v where v: "v \<in> set (data ndvi)" "is_finite v"
    by (auto simp: filter_empty_conv)
  then have nn: "\<not> is_nan v" by (simp add: is_finite_iff)
  obtain s where s: "calculate_statistics ndvi = Inr s"
    using calculate_statistics_some [OF False] by blast
  show ?thesis
    unfolding s using v nn by auto
qed

theorem calculate_statistics_error_witness:
  "calculate_statistics \<lparr>shape = [1, 2], data = [the_nan, the_nan]\<rparr> =
     Inl (ValueError ''No valid NDVI pixels found after masking'') \<and>
   calculate_statistics \<lparr>shape = [1, 2], data = [the_nan, plus_zero]\<rparr> \<noteq>
     Inl (ValueError ''No valid NDVI pixels found after masking'')"
proof -
  note a = calculate_statistics_error
             [of "\<lparr>shape = [1, 2], data = [the_nan, the_nan]\<rparr>", THEN conjunct1]
  note b = calculate_statistics_error
             [of "\<lparr>shape = [1, 2], data = [the_nan, plus_zero]\<rparr>", THEN conjunct1]
  have "\<forall>v \<in> set (data \<lparr>shape = [1, 2], data = [the_nan :: float32, the_nan]\<rparr>). \<not> is_finite v"
    by simp
  moreover have "\<not> (\<forall>v \<in> set (data \<lparr>shape = [1, 2], data = [the_nan :: float32, plus_zero]\<rparr>).
      \<not> is_finite v)"
    by simp
  ultimately show ?thesis
    using a b by blast
qed

text \<open>
  C7. For the pixel pair \<open>red = 0.1\<close>, \<open>nir = 0.5\<close> (as \<^verbatim>\<open>float32\<close> values)
  \<^verbatim>\<open>compute_ndvi\<close> yields the \<^verbatim>\<open>float32\<close> \<open>5592405 / 2\<^sup>2\<^sup>3 = 0.66666663\<dots>\<close>. Rounded
  to 3 decimals, as \<^verbatim>\<open>calculate_statistics\<close> rounds \<^verbatim>\<open>min_ndvi\<close> and \<^verbatim>\<open>max_ndvi\<close>, that
  is \<open>0.667\<close>; \<open>0.6667\<close> is the value rounded to 4 decimals. The pixel is counted
  as healthy: the statistics of the one-pixel grid report 100 percent healthy.

  As the claim is worded, with \<open>0.6667\<close> as the value rounded to 3 decimals, it fails:
\<close>

theorem known_value_not_06667_at_3_decimals:
  "\<not> (\<exists>ndvi v. compute_ndvi \<lparr>shape = [1, 1], data = [as_float32 (py_float (1 / 10))]\<rparr>
                              \<lparr>shape = [1, 1], data = [as_float32 (py_float (5 / 10))]\<rparr> = Inr ndvi \<and>
        data ndvi = [v] \<and> py_round (fcast v) 3 = py_float (6667 / 10000))"
proof -
  have "py_float (667 / 1000) \<noteq> py_float (6667 / 10000)"
    unfolding py_0667 py_06667 by simp
  then show ?thesis
    unfolding known_compute by (auto simp: known_widen known_round3)
qed

text \<open>C7, amended: \<open>0.667\<close> at 3 decimals, \<open>0.6667\<close> at 4, and healthy.\<close>

theorem known_value:
  "compute_ndvi \<lparr>shape = [1, 1], data = [as_float32 (py_float (1 / 10))]\<rparr>
                \<lparr>shape = [1, 1], data = [as_float32 (py_float (5 / 10))]\<rparr> =
     Inr \<lparr>shape = [1, 1], data = [(False, 126, 2796202)]\<rparr> \<and>
   valof ((False, 126, 2796202) :: float32) = 5592405 / 2 ^ 23 \<and>
   py_round (fcast ((False, 126, 2796202) :: float32)) 3 = py_float (667 / 1000) \<and>
   py_round (fcast ((False, 126, 2796202) :: float32)) 4 = py_float (6667 / 10000) \<and>
   fgt (False, 126, 2796202) t06 \<and>
   healthy (valid_pixels \<lparr>shape = [1, 1], data = [(False, 126, 2796202)]\<rparr>) = 1 \<and>
   calculate_statistics \<lparr>shape = [1, 1], data = [(False, 126, 2796202)]\<rparr> =
     Inr \<lparr>healthy_vegetation_percent = float64_of_int 100,
          moderate_vegetation_percent = plus_zero,
          stressed_vegetation_percent = plus_zero,
          bare_land_percent = plus_zero,
          min_ndvi = py_float (667 / 1000),
          max_ndvi = py_float (667 / 1000),
          total_valid_pixels = 1\<rparr>"
proof -
  have "\<not> is_nan ((False, 126, 2796202) :: float32)"
    by (simp add: field_defs)
  then have h: "fgt ((False, 126, 2796202) :: float32) t06"
    by (simp add: fgt_def flt_def valof_known valof_t06)
  have r3: "py_round (fcast ((False, 126, 2796202) :: float32)) 3 = py_float (667 / 1000)"
    unfolding known_widen by (rule known_round3)
  have r4: "py_round (fcast ((False, 126, 2796202) :: float32)) 4 = py_float (6667 / 10000)"
    unfolding known_widen by (rule known_round4)
  show ?thesis
    by (intro conjI known_compute valof_known r3 r4 h known_counts(1) known_statistics)
qed

text \<open>
  C8. For a grid in which every pixel has \<open>red = 0\<close> and \<open>nir = 0\<close>,
  \<^verbatim>\<open>compute_ndvi\<close> returns a grid of \<open>+0.0\<close> only. \<^verbatim>\<open>calculate_statistics\<close> counts
  every pixel as bare land and raises no error, provided the grid has a pixel at all: on
  the grid with no pixel, where the premise holds of every pixel there is, the
  finite-value mask leaves nothing and the no-valid-pixels error is raised.
\<close>

theorem empty_scene_raises:
  "\<exists>ndvi. compute_ndvi \<lparr>shape = [0, 0], data = []\<rparr> \<lparr>shape = [0, 0], data = []\<rparr> = Inr ndvi \<and>
      data ndvi = [] \<and>
      calculate_statistics ndvi = Inl (ValueError ''No valid NDVI pixels found after masking'')"
  by (simp add: compute_ndvi_data calculate_statistics_none)

text \<open>
  C8, amended: the claim for a grid with at least one pixel. The percentages are
  \<open>100.0\<close> and three times \<open>0.0\<close> (for a grid of fewer than \<open>2\<^sup>5\<^sup>3\<close> pixels).
\<close>

theorem all_degenerate_scene:
  assumes "shape red_band = shape nir_band"
    and "length (data red_band) = length (data nir_band)"
    and "data red_band \<noteq> []"
    and "\<forall>x \<in> set (data red_band). is_zero x"
    and "\<forall>x \<in> set (data nir_band). is_zero x"
  shows "\<exists>ndvi st. compute_ndvi red_band nir_band = Inr ndvi \<and>
      shape ndvi = shape red_band \<and>
      data ndvi = replicate (length (data red_band)) plus_zero \<and>
      calculate_statistics ndvi = Inr st \<and>
      total_valid_pixels st = length (data red_band) \<and>
      bare (valid_pixels ndvi) = length (data red_band) \<and>
      healthy (valid_pixels ndvi) = 0 \<and> moderate (valid_pixels ndvi) = 0 \<and>
      stressed (valid_pixels ndvi) = 0 \<and>
      (length (data red_band) < 2 ^ 53 \<longrightarrow>
         bare_land_percent st = float64_of_int 100 \<and>
         healthy_vegetation_percent st = plus_zero \<and>
         moderate_vegetation_percent st = plus_zero \<and>
         stressed_vegetation_percent st = plus_zero)"
proof -
  let ?n = "length (data red_band)"
  let ?ndvi = "\<lparr>shape = shape nir_band, data = replicate ?n (plus_zero :: float32)\<rparr>"
  have n0: "0 < ?n" using assms(3) by simp
  have "map2 ndvi_pixel (data nir_band) (data red_band) = replicate (length (data nir_band)) plus_zero"
    using assms(5,4) ndvi_pixel_zero assms(2) [symmetric] by (rule map2_const)
  then have c: "compute_ndvi red_band nir_band = Inr ?ndvi"
    by (simp add: compute_ndvi_data [OF assms(1)] assms(2))
  note z = zero_counts [OF n0]
  have ne: "filter is_finite (data ?ndvi) \<noteq> []" using n0 by simp
  have len: "length (filter is_finite (data ?ndvi)) = ?n" by simp
  obtain st where st: "calculate_statistics ?ndvi = Inr st"
    "healthy_vegetation_percent st = percent 0 ?n"
    "moderate_vegetation_percent st = percent 0 ?n"
    "stressed_vegetation_percent st = percent 0 ?n"
    "bare_land_percent st = percent ?n ?n"
    "total_valid_pixels st = ?n"
    using calculate_statistics_fields [OF ne] unfolding z(2-5) len by blast
  have pct: "bare_land_percent st = float64_of_int 100 \<and>
         healthy_vegetation_percent st = plus_zero \<and>
         moderate_vegetation_percent st = plus_zero \<and>
         stressed_vegetation_percent st = plus_zero" if "?n < 2 ^ 53"
    unfolding st using percent_all [OF n0 that] percent_zero [OF n0 that] by simp
  show ?thesis
    unfolding c
    by (intro exI [of _ ?ndvi] exI [of _ st] conjI impI refl st(1,6) z(2-5) pct)
      (simp_all add: assms(1))
qed

theorem all_degenerate_scene_witness:
  "\<exists>ndvi st. compute_ndvi \<lparr>shape = [1, 2], data = [plus_zero, zero_of True]\<rparr>
                           \<lparr>shape = [1, 2], data = [plus_zero, plus_zero]\<rparr> = Inr ndvi \<and>
      data ndvi = replicate (length [plus_zero, zero_of True :: float32]) plus_zero \<and>
      calculate_statistics ndvi = Inr st \<and>
      total_valid_pixels st = length [plus_zero, zero_of True :: float32] \<and>
      bare (valid_pixels ndvi) = length [plus_zero, zero_of True :: float32] \<and>
      bare_land_percent st = float64_of_int 100"
proof -
  let ?r = "\<lparr>shape = [1, 2], data = [plus_zero, zero_of True :: float32]\<rparr>"
  let ?n = "\<lparr>shape = [1, 2], data = [plus_zero, plus_zero :: float32]\<rparr>"
  have z: "is_zero (plus_zero :: float32)" "is_zero (zero_of True :: float32)"
    using zero_of_simps(7) [of False, where 'e=8 and 'f=23]
      zero_of_simps(7) [of True, where 'e=8 and 'f=23]
    by (simp_all add: zero_of_def plus_zero_def)
  have h: "shape ?r = shape ?n" "length (data ?r) = length (data ?n)" "data ?r \<noteq> []"
    "\<forall>x \<in> set (data ?r). is_zero x" "\<forall>x \<in> set (data ?n). is_zero x"
    using z by simp_all
  have small: "length (data ?r) < 2 ^ 53" by simp
  obtain ndvi st where *: "compute_ndvi ?r ?n = Inr ndvi"
      "data ndvi = replicate (length (data ?r)) plus_zero" "calculate_statistics ndvi = Inr st"
      "total_valid_pixels st = length (data ?r)" "bare (valid_pixels ndvi) = length (data ?r)"
      "length (data ?r) < 2 ^ 53 \<longrightarrow> bare_land_percent st = float64_of_int 100 \<and>
         healthy_vegetation_percent st = plus_zero \<and>
         moderate_vegetation_percent st = plus_zero \<and>
         stressed_vegetation_percent st = plus_zero"
    using all_degenerate_scene [OF h] by blast
  from *(6) small have "bare_land_percent st = float64_of_int 100" by blast
  with *(1-5) show ?thesis
    unfolding ndarray.simps by (intro exI [of _ ndvi] exI [of _ st] conjI)
qed





end
